theory Spec2Isabelle
  imports Main
begin

section \<open>Strings and characters\<close>

text \<open>
  A Python \<^verbatim>\<open>str\<close> is a sequence of Unicode code points: a list of naturals.
  ASCII literals of the source are written as HOL strings and converted by \<open>of_str\<close>.
\<close>

type_synonym pystr = "nat list"

definition of_str :: "string \<Rightarrow> pystr" where
  "of_str cs = map of_char cs"

text \<open>
  \<^verbatim>\<open>str.isspace\<close>, \<^verbatim>\<open>str.strip()\<close> and the regular-expression class \<^verbatim>\<open>\s\<close> (for a
  \<^verbatim>\<open>str\<close> pattern) all use the same table of white space: the code points below.
\<close>

definition is_space :: "nat \<Rightarrow> bool" where
  "is_space c \<longleftrightarrow>
     (9 \<le> c \<and> c \<le> 13) \<or> (28 \<le> c \<and> c \<le> 32) \<or> c = 133 \<or> c = 160 \<or> c = 5760 \<or>
     (8192 \<le> c \<and> c \<le> 8202) \<or> c = 8232 \<or> c = 8233 \<or> c = 8239 \<or> c = 8287 \<or> c = 12288"

text \<open>
  The class \<^verbatim>\<open>\w\<close> is every alphanumeric code point (\<^verbatim>\<open>str.isalnum\<close>) and the
  underscore. The alphanumeric table of the Unicode database is no part of the repository:
  it is the parameter \<open>alnum\<close> of the functions below. \<open>ascii_alnum\<close> is the table on ASCII.
\<close>

definition is_word :: "(nat \<Rightarrow> bool) \<Rightarrow> nat \<Rightarrow> bool" where
  "is_word alnum c \<longleftrightarrow> alnum c \<or> c = 95"

definition ascii_alnum :: "nat \<Rightarrow> bool" where
  "ascii_alnum c \<longleftrightarrow> (48 \<le> c \<and> c \<le> 57) \<or> (65 \<le> c \<and> c \<le> 90) \<or> (97 \<le> c \<and> c \<le> 122)"

text \<open>\<^verbatim>\<open>s.strip()\<close>: leading and trailing white space removed.\<close>

definition strip :: "pystr \<Rightarrow> pystr" where
  "strip s = rev (dropWhile is_space (rev (dropWhile is_space s)))"

text \<open>\<^verbatim>\<open>s.startswith(p)\<close>, \<^verbatim>\<open>s.endswith(p)\<close> and the slice \<^verbatim>\<open>s[1:-1]\<close>.\<close>

definition startswith :: "pystr \<Rightarrow> pystr \<Rightarrow> bool" where
  "startswith s p \<longleftrightarrow> take (length p) s = p"

definition endswith :: "pystr \<Rightarrow> pystr \<Rightarrow> bool" where
  "endswith s p \<longleftrightarrow> length p \<le> length s \<and> drop (length s - length p) s = p"

definition slice_1_m1 :: "pystr \<Rightarrow> pystr" where
  "slice_1_m1 s = drop 1 (take (length s - 1) s)"

section \<open>The regular expressions of the source\<close>

text \<open>
  Every pattern of the source is a sequence of items: a character set under a greedy
  quantifier \<^verbatim>\<open>{lo,hi}\<close> (a plain character is the set of itself, once), or one of the
  zero-width assertions \<^verbatim>\<open>^\<close>, \<^verbatim>\<open>$\<close>, \<^verbatim>\<open>\b\<close>. No flag is given, so matching is
  case-sensitive, \<^verbatim>\<open>^\<close> holds at the start of the string only, and \<^verbatim>\<open>$\<close> at its end or
  before a newline that ends it.
\<close>

datatype atom = Lit nat | Space | Word

datatype item = Rep "atom list" nat "nat option" | Bol | Eol | WordBoundary

type_synonym pattern = "item list"

fun in_atom :: "(nat \<Rightarrow> bool) \<Rightarrow> atom \<Rightarrow> nat \<Rightarrow> bool" where
  "in_atom alnum (Lit d) c \<longleftrightarrow> c = d"
| "in_atom alnum Space c \<longleftrightarrow> is_space c"
| "in_atom alnum Word c \<longleftrightarrow> is_word alnum c"

fun in_class :: "(nat \<Rightarrow> bool) \<Rightarrow> atom list \<Rightarrow> nat \<Rightarrow> bool" where
  "in_class alnum [] c \<longleftrightarrow> False"
| "in_class alnum (a # as) c \<longleftrightarrow> in_atom alnum a c \<or> in_class alnum as c"

text \<open>
  A position in the subject string is the character before it (\<open>None\<close> at the start of the
  string) and the rest of the string from it on.

  \<^verbatim>\<open>$\<close> holds at the end of the string and before a newline that ends it;
  \<^verbatim>\<open>\b\<close> holds where exactly one of the two neighbours is a word character, a missing
  neighbour counting as none.
\<close>

definition at_eol :: "pystr \<Rightarrow> bool" where
  "at_eol rest \<longleftrightarrow> rest = [] \<or> rest = [10]"

fun word_before :: "(nat \<Rightarrow> bool) \<Rightarrow> nat option \<Rightarrow> bool" where
  "word_before alnum None \<longleftrightarrow> False"
| "word_before alnum (Some c) \<longleftrightarrow> is_word alnum c"

fun word_here :: "(nat \<Rightarrow> bool) \<Rightarrow> pystr \<Rightarrow> bool" where
  "word_here alnum [] \<longleftrightarrow> False"
| "word_here alnum (c # cs) \<longleftrightarrow> is_word alnum c"

definition at_boundary :: "(nat \<Rightarrow> bool) \<Rightarrow> nat option \<Rightarrow> pystr \<Rightarrow> bool" where
  "at_boundary alnum prev rest \<longleftrightarrow> word_before alnum prev \<noteq> word_here alnum rest"

text \<open>The position \<open>j\<close> characters further on.\<close>

fun prev_after :: "nat \<Rightarrow> nat option \<Rightarrow> pystr \<Rightarrow> nat option" where
  "prev_after 0 prev rest = prev"
| "prev_after (Suc j) prev rest = Some (rest ! j)"

text \<open>
  Backtracking over a greedy quantifier: the longest repetition \<open>j\<close> is tried first, then
  shorter ones down to \<open>lo\<close>; \<open>k\<close> matches the rest of the pattern and returns the number
  of characters it consumed.
\<close>

primrec backtrack ::
  "(nat option \<Rightarrow> pystr \<Rightarrow> nat option) \<Rightarrow> nat option \<Rightarrow> pystr \<Rightarrow> nat \<Rightarrow> nat \<Rightarrow> nat option" where
  "backtrack k prev rest lo 0 =
     (if lo = 0 then k prev rest else None)"
| "backtrack k prev rest lo (Suc j) =
     (if Suc j < lo then None
      else case k (Some (rest ! j)) (drop (Suc j) rest) of
             Some n \<Rightarrow> Some (Suc j + n)
           | None \<Rightarrow> backtrack k prev rest lo j)"

text \<open>The longest repetition a quantifier \<^verbatim>\<open>{lo,hi}\<close> over the set \<open>cls\<close> can take.\<close>

fun longest :: "(nat \<Rightarrow> bool) \<Rightarrow> atom list \<Rightarrow> nat option \<Rightarrow> pystr \<Rightarrow> nat" where
  "longest alnum cls None rest = length (takeWhile (in_class alnum cls) rest)"
| "longest alnum cls (Some h) rest = min h (length (takeWhile (in_class alnum cls) rest))"

text \<open>
  \<open>re_match pat alnum prev rest\<close>: the number of characters that the match of \<open>pat\<close> at
  this position consumes, or \<open>None\<close> when \<open>pat\<close> does not match here.
\<close>

primrec re_match :: "pattern \<Rightarrow> (nat \<Rightarrow> bool) \<Rightarrow> nat option \<Rightarrow> pystr \<Rightarrow> nat option" where
  "re_match [] alnum prev rest = Some 0"
| "re_match (i # is) alnum prev rest =
     (case i of
        Rep cls lo hi \<Rightarrow> backtrack (re_match is alnum) prev rest lo (longest alnum cls hi rest)
      | Bol \<Rightarrow> if prev = None then re_match is alnum prev rest else None
      | Eol \<Rightarrow> if at_eol rest then re_match is alnum prev rest else None
      | WordBoundary \<Rightarrow> if at_boundary alnum prev rest then re_match is alnum prev rest else None)"

text \<open>
  \<^verbatim>\<open>re.search\<close>: the leftmost position at which the pattern matches, as the number of
  characters before the match and the length of the match.
\<close>

fun search_from :: "pattern \<Rightarrow> (nat \<Rightarrow> bool) \<Rightarrow> nat option \<Rightarrow> pystr \<Rightarrow> (nat \<times> nat) option" where
  "search_from pat alnum prev [] =
     (case re_match pat alnum prev [] of None \<Rightarrow> None | Some n \<Rightarrow> Some (0, n))"
| "search_from pat alnum prev (c # cs) =
     (case re_match pat alnum prev (c # cs) of
        Some n \<Rightarrow> Some (0, n)
      | None \<Rightarrow>
          (case search_from pat alnum (Some c) cs of
             None \<Rightarrow> None
           | Some (b, n) \<Rightarrow> Some (Suc b, n)))"

definition re_search :: "pattern \<Rightarrow> (nat \<Rightarrow> bool) \<Rightarrow> pystr \<Rightarrow> (nat \<times> nat) option" where
  "re_search pat alnum s = search_from pat alnum None s"

subsection \<open>A match lies inside the string\<close>

lemma longest_le: "longest alnum cls hi rest \<le> length rest"
proof -
  have "length (takeWhile (in_class alnum cls) rest) \<le> length rest"
    by (rule length_takeWhile_le)
  then show ?thesis by (cases hi) auto
qed

lemma backtrack_Some:
  assumes "backtrack k prev rest lo j = Some r"
  shows "\<exists>i n. lo \<le> i \<and> i \<le> j \<and> k (prev_after i prev rest) (drop i rest) = Some n \<and> r = i + n"
  using assms
proof (induction j)
  case 0
  then show ?case by (auto split: if_splits)
next
  case (Suc j)
  show ?case
  proof (cases "k (Some (rest ! j)) (drop (Suc j) rest)")
    case None
    with Suc.prems have "backtrack k prev rest lo j = Some r"
      by (simp split: if_splits)
    from Suc.IH [OF this] obtain i n where "lo \<le> i" "i \<le> j"
      "k (prev_after i prev rest) (drop i rest) = Some n" "r = i + n"
      by blast
    then show ?thesis
      by (intro exI [of _ i] exI [of _ n]) simp
  next
    case (Some n)
    with Suc.prems have "\<not> Suc j < lo" "r = Suc j + n"
      by (auto split: if_splits)
    with Some show ?thesis
      by (intro exI [of _ "Suc j"] exI [of _ n]) simp
  qed
qed

lemma re_match_le: "re_match pat alnum prev rest = Some n \<Longrightarrow> n \<le> length rest"
proof (induction pat arbitrary: prev rest n)
  case Nil
  then show ?case by simp
next
  case (Cons i "is")
  show ?case
  proof (cases i)
    case (Rep cls lo hi)
    with Cons.prems obtain j m where j: "j \<le> longest alnum cls hi rest"
      and m: "re_match is alnum (prev_after j prev rest) (drop j rest) = Some m" and n: "n = j + m"
      by (auto dest!: backtrack_Some)
    from Cons.IH [OF m] have "m \<le> length rest - j" by simp
    moreover from j have "j \<le> length rest" using longest_le le_trans by blast
    ultimately show ?thesis using n by simp
  qed (use Cons in \<open>auto split: if_splits\<close>)
qed

text \<open>
  \<^verbatim>\<open>re.sub(pat, repl, s)\<close>, position by position: a match is replaced and the scan goes on
  behind it; after an empty match, and where the pattern does not match, the character
  at the position is copied and the scan goes on behind it.
\<close>

function sub_from :: "pattern \<Rightarrow> (nat \<Rightarrow> bool) \<Rightarrow> pystr \<Rightarrow> nat option \<Rightarrow> pystr \<Rightarrow> pystr" where
  "sub_from pat alnum repl prev rest =
     (case re_match pat alnum prev rest of
        Some (Suc n) \<Rightarrow> repl @ sub_from pat alnum repl (Some (rest ! n)) (drop (Suc n) rest)
      | Some 0 \<Rightarrow>
          repl @ (case rest of [] \<Rightarrow> [] | c # cs \<Rightarrow> c # sub_from pat alnum repl (Some c) cs)
      | None \<Rightarrow>
          (case rest of [] \<Rightarrow> [] | c # cs \<Rightarrow> c # sub_from pat alnum repl (Some c) cs))"
  by pat_completeness auto
termination
  by (relation "measure (\<lambda>(pat, alnum, repl, prev, rest). length rest)")
    (auto dest!: re_match_le)

declare sub_from.simps [simp del]

definition re_sub :: "pattern \<Rightarrow> (nat \<Rightarrow> bool) \<Rightarrow> pystr \<Rightarrow> pystr \<Rightarrow> pystr" where
  "re_sub pat alnum repl s = sub_from pat alnum repl None s"

text \<open>A plain character of a pattern, and a run of them.\<close>

definition chr :: "nat \<Rightarrow> item" where
  "chr c = Rep [Lit c] 1 (Some 1)"

definition lits :: "string \<Rightarrow> pattern" where
  "lits cs = map (\<lambda>c. chr (of_char c)) cs"

section \<open>The normalizer\<close>

text \<open>The four patterns of \<^verbatim>\<open>normalize_one_line\<close>:
  \<^verbatim>\<open>^```[\w-]*\n?\<close>, \<^verbatim>\<open>\n?```$\<close>, \<^verbatim>\<open>\s*\n\s*\<close> and \<^verbatim>\<open>\s{2,}\<close>.\<close>

definition FENCE_OPEN :: pattern where
  "FENCE_OPEN = Bol # lits ''```'' @ [Rep [Word, Lit 45] 0 None, Rep [Lit 10] 0 (Some 1)]"

definition FENCE_CLOSE :: pattern where
  "FENCE_CLOSE = Rep [Lit 10] 0 (Some 1) # lits ''```'' @ [Eol]"

definition NL_RUN :: pattern where
  "NL_RUN = [Rep [Space] 0 None, chr 10, Rep [Space] 0 None]"

definition WS_RUN :: pattern where
  "WS_RUN = [Rep [Space] 2 None]"

text \<open>Lines 59-60: a string that starts and ends with a backtick loses its first and
  last character and is trimmed.\<close>

definition unwrap_backticks :: "pystr \<Rightarrow> pystr" where
  "unwrap_backticks s =
     (if startswith s (of_str ''`'') \<and> endswith s (of_str ''`'') then strip (slice_1_m1 s) else s)"

definition normalize_one_line :: "(nat \<Rightarrow> bool) \<Rightarrow> pystr \<Rightarrow> pystr" where
  "normalize_one_line alnum s =
     (if s = [] then []
      else
        let s = strip s;
            s = re_sub FENCE_OPEN alnum [] s;
            s = re_sub FENCE_CLOSE alnum [] s;
            s = unwrap_backticks s;
            s = re_sub NL_RUN alnum (of_str '' '') s;
            s = re_sub WS_RUN alnum (of_str '' '') s
        in strip s)"

section \<open>The danger classifier\<close>

definition DANGEROUS_PATTERNS :: "pattern list" where
  "DANGEROUS_PATTERNS =
     [lits ''rm'' @ [Rep [Space] 1 None] @ lits ''-rf'' @ [Rep [Space] 1 None] @ lits ''/'' @ [WordBoundary],
      lits ''mkfs.'',
      WordBoundary # lits ''umount'' @ [WordBoundary],
      WordBoundary # lits ''dd'' @ [WordBoundary, Rep [Space] 1 None] @ lits ''if='',
      WordBoundary # lits ''shutdown'' @ [WordBoundary],
      WordBoundary # lits ''reboot'' @ [WordBoundary],
      WordBoundary # lits ''chown'' @ [Rep [Space] 1 None] @ lits ''-R'' @ [Rep [Space] 1 None]
        @ lits ''root'' @ [WordBoundary],
      WordBoundary # lits ''chmod'' @ [Rep [Space] 1 None, Rep [Lit 48] 3 (Some 4), WordBoundary],
      WordBoundary # lits '':>'' @ [Rep [Space] 0 None] @ lits ''/'' @ [Rep [Word] 1 (Some 1)]]"

text \<open>The loop of \<^verbatim>\<open>is_dangerous\<close>: the first pattern found in the command returns True.\<close>

fun any_pattern :: "pattern list \<Rightarrow> (nat \<Rightarrow> bool) \<Rightarrow> pystr \<Rightarrow> bool" where
  "any_pattern [] alnum cmd = False"
| "any_pattern (pat # pats) alnum cmd =
     (if re_search pat alnum cmd \<noteq> None then True else any_pattern pats alnum cmd)"

definition is_dangerous :: "(nat \<Rightarrow> bool) \<Rightarrow> pystr \<Rightarrow> bool" where
  "is_dangerous alnum cmd = any_pattern DANGEROUS_PATTERNS alnum cmd"

subsection \<open>What it means that a pattern matches\<close>

text \<open>
  The claim about the classifier speaks of a pattern that matches the command. This is
  the relation itself, written from the meaning of the pattern and not from the search:
  \<open>matches pat alnum prev rest n\<close> holds when \<open>pat\<close> matches the first \<open>n\<close> characters of
  \<open>rest\<close>, with no order among the repetitions a quantifier may take; \<open>occurs_in\<close> holds
  when it does so at some position of the string.
\<close>

primrec matches :: "pattern \<Rightarrow> (nat \<Rightarrow> bool) \<Rightarrow> nat option \<Rightarrow> pystr \<Rightarrow> nat \<Rightarrow> bool" where
  "matches [] alnum prev rest n \<longleftrightarrow> n = 0"
| "matches (i # is) alnum prev rest n \<longleftrightarrow>
     (case i of
        Rep cls lo hi \<Rightarrow>
          (\<exists>j. lo \<le> j \<and> (case hi of None \<Rightarrow> True | Some h \<Rightarrow> j \<le> h) \<and> j \<le> length rest \<and> j \<le> n \<and>
               (\<forall>c \<in> set (take j rest). in_class alnum cls c) \<and>
               matches is alnum (prev_after j prev rest) (drop j rest) (n - j))
      | Bol \<Rightarrow> prev = None \<and> matches is alnum prev rest n
      | Eol \<Rightarrow> at_eol rest \<and> matches is alnum prev rest n
      | WordBoundary \<Rightarrow> at_boundary alnum prev rest \<and> matches is alnum prev rest n)"

definition occurs_in :: "pattern \<Rightarrow> (nat \<Rightarrow> bool) \<Rightarrow> pystr \<Rightarrow> bool" where
  "occurs_in pat alnum s \<longleftrightarrow>
     (\<exists>b n. b \<le> length s \<and> matches pat alnum (prev_after b None s) (drop b s) n)"

section \<open>The session controller\<close>

text \<open>
  \<^verbatim>\<open>main\<close> is modelled with its effects made explicit: the files, the streams and the
  commands run are fields of a record that every step takes and returns, and the model,
  the shell, the clock and the Unicode tables are parameters. A step that ends the process
  (\<^verbatim>\<open>sys.exit\<close>, an exception that nothing catches) returns that end instead of a value.

  The model covers: a state file that is missing, that does not parse, or that holds a JSON
  object whose values under \<^verbatim>\<open>task\<close>, \<^verbatim>\<open>cmd\<close> and \<^verbatim>\<open>last_error\<close> are strings; an
  \<^verbatim>\<open>ollama\<close> process that exits with a nonzero status; the end of the standard input; a
  history file that cannot be appended to. It leaves out: the effects of the executed
  command on the two files, a shell or an \<^verbatim>\<open>ollama\<close> binary that cannot be started, and a
  state file that cannot be written.
\<close>

subsection \<open>Command line, files and streams\<close>

text \<open>
  The parsed command line (\<^verbatim>\<open>args\<close>), with the fields of the argument parser.
\<close>

datatype mode = Suggest | Run | Explain | Refine

record args =
  args_task :: "pystr list"
  args_model :: pystr
  args_mode :: mode
  args_shell :: pystr
  args_no_history :: bool
  args_use_last :: bool
  args_why :: pystr
  args_cmd :: pystr

text \<open>
  The JSON object of the state file, as \<^verbatim>\<open>save_state\<close> writes it: a key may be missing
  (a file written by hand), \<^verbatim>\<open>exit_code\<close> is an integer or the empty string. The values
  under \<^verbatim>\<open>task\<close>, \<^verbatim>\<open>cmd\<close> and \<^verbatim>\<open>last_error\<close> are strings.
\<close>

datatype exit_code = NoCode | Code int

record state =
  st_task :: "pystr option"
  st_cmd :: "pystr option"
  st_last_error :: "pystr option"
  st_exit_code :: "exit_code option"
  st_timestamp :: "pystr option"

datatype state_file = NoFile | Unparsable | Json state

text \<open>What is written to the standard output and to the standard error stream.\<close>

datatype prompt =
    AskYES          \<comment> \<open>\<^verbatim>\<open>Type 'YES' to run anyway: \<close>\<close>
  | AskRun          \<comment> \<open>\<^verbatim>\<open>Run this command? [y/N]: \<close>\<close>
  | AskRefine       \<comment> \<open>\<^verbatim>\<open>Refine based on this error? [y/N]: \<close>\<close>
  | AskRunImproved  \<comment> \<open>\<^verbatim>\<open>Run improved command? [y/N]: \<close>\<close>

datatype printed =
    Line pystr                \<comment> \<open>\<^verbatim>\<open>print(cmd)\<close>\<close>
  | Suggested pystr           \<comment> \<open>\<^verbatim>\<open>Suggested:\<close> and the command\<close>
  | Aborted                   \<comment> \<open>\<^verbatim>\<open>Aborted.\<close>\<close>
  | Prompt prompt             \<comment> \<open>the prompt of \<^verbatim>\<open>input\<close>\<close>
  | CapturedStdout pystr      \<comment> \<open>\<^verbatim>\<open>print(completed.stdout, end="")\<close>\<close>
  | Improved pystr            \<comment> \<open>\<^verbatim>\<open>Improved suggestion:\<close> and the command\<close>
  | Explanation pystr pystr   \<comment> \<open>the command and its explanation\<close>

datatype diag =
    ErrOllamaFailed           \<comment> \<open>\<^verbatim>\<open>[err] ollama failed: ...\<close>\<close>
  | ErrEmptySuggest           \<comment> \<open>\<^verbatim>\<open>[err] Model returned empty or multiline command. Refine your prompt.\<close>\<close>
  | ErrEmptyRefine            \<comment> \<open>the same, \<^verbatim>\<open>Try adding more detail to --why.\<close>\<close>
  | ErrNoPreviousState        \<comment> \<open>\<^verbatim>\<open>[err] No previous state found. Run a suggest/run first.\<close>\<close>
  | ErrTaskOrUseLast          \<comment> \<open>\<^verbatim>\<open>[err] Provide a task (natural language) or use --use-last.\<close>\<close>
  | WarnNoPreviousCommand     \<comment> \<open>\<^verbatim>\<open>[warn] No previous command in state; ...\<close>\<close>
  | ErrProvideTask            \<comment> \<open>\<^verbatim>\<open>[err] Provide a task.\<close>\<close>
  | ErrNoCommand              \<comment> \<open>\<^verbatim>\<open>[err] Use --cmd '<command>' or --use-last with an existing state.\<close>\<close>
  | WarnDangerous             \<comment> \<open>\<^verbatim>\<open>[warn] Command looks dangerous. Not running without explicit consent.\<close>\<close>
  | CapturedStderr pystr      \<comment> \<open>\<^verbatim>\<open>sys.stderr.write(completed.stderr)\<close>\<close>
  | ErrCommandFailed int      \<comment> \<open>\<^verbatim>\<open>[err] Command failed with exit code {rc}.\<close>\<close>
  | ErrImprovedFailed int     \<comment> \<open>\<^verbatim>\<open>[err] Improved command failed (exit {e.returncode}).\<close>\<close>

text \<open>
  Everything an invocation can change or consume: the two files, the two output streams,
  the lines still to be read from the standard input, the commands run so far (shell and
  command), the prompts sent to the model so far (model and prompt), and the number of
  times the clock was read.
\<close>

record world =
  state_file :: state_file
  hist_file :: pystr
  stdout :: "printed list"
  stderr :: "diag list"
  stdin :: "pystr list"
  ran :: "(pystr \<times> pystr) list"
  asked :: "(pystr \<times> pystr) list"
  ticks :: nat

text \<open>The result of \<^verbatim>\<open>subprocess.run\<close>.\<close>

record completed =
  c_stdout :: pystr
  c_stderr :: pystr
  returncode :: int

text \<open>
  What the program is run against: the two Unicode tables (\<^verbatim>\<open>str.isalnum\<close> and
  \<^verbatim>\<open>str.lower\<close>), the model (\<open>None\<close> when \<^verbatim>\<open>ollama\<close> exits with a nonzero status), the
  shell, the clock, and whether the history file can be opened for appending.
\<close>

record env =
  uni_alnum :: "nat \<Rightarrow> bool"
  uni_lower :: "pystr \<Rightarrow> pystr"
  ollama :: "pystr \<Rightarrow> pystr \<Rightarrow> pystr option"
  run_shell :: "pystr \<Rightarrow> pystr \<Rightarrow> completed"
  clock :: "nat \<Rightarrow> pystr"
  hist_ok :: bool

text \<open>
  A step returns a value, or ends the process: by \<^verbatim>\<open>sys.exit\<close> with an integer, or by an
  exception that nothing catches (the interpreter then exits with status 1).

  \<open>exit_status\<close> is the status that the operating system reports for the process: of the
  integer given to \<^verbatim>\<open>sys.exit\<close> it keeps the low eight bits, so \<^verbatim>\<open>sys.exit(-15)\<close> ends
  the process with status 241. (\<^verbatim>\<open>subprocess\<close> reports a command that a signal \<open>N\<close> ended
  with the return code \<open>-N\<close>, and a command that exited with a return code from 0 to 255.)
\<close>

datatype exn = EOFError | OSError

datatype 'a outcome = Return 'a | SysExit int | Uncaught exn

fun exit_status :: "'a outcome \<Rightarrow> int" where
  "exit_status (Return x) = 0"
| "exit_status (SysExit n) = n mod 256"
| "exit_status (Uncaught e) = 1"

fun and_then :: "'a outcome \<times> world \<Rightarrow> ('a \<Rightarrow> world \<Rightarrow> 'b outcome \<times> world) \<Rightarrow> 'b outcome \<times> world" where
  "and_then (Return x, w) f = f x w"
| "and_then (SysExit n, w) f = (SysExit n, w)"
| "and_then (Uncaught e, w) f = (Uncaught e, w)"

definition emit :: "printed \<Rightarrow> world \<Rightarrow> world" where
  "emit x w = w\<lparr>stdout := stdout w @ [x]\<rparr>"

definition warn :: "diag \<Rightarrow> world \<Rightarrow> world" where
  "warn x w = w\<lparr>stderr := stderr w @ [x]\<rparr>"

text \<open>\<^verbatim>\<open>input(prompt)\<close>: the prompt is written, a line is read; at the end of the input
  \<^verbatim>\<open>EOFError\<close> is raised.\<close>

definition py_input :: "prompt \<Rightarrow> world \<Rightarrow> pystr outcome \<times> world" where
  "py_input p w =
     (case stdin w of
        [] \<Rightarrow> (Uncaught EOFError, emit (Prompt p) w)
      | l # ls \<Rightarrow> (Return l, (emit (Prompt p) w)\<lparr>stdin := ls\<rparr>))"

text \<open>\<^verbatim>\<open>" ".join(args.task)\<close>\<close>

fun join_space :: "pystr list \<Rightarrow> pystr" where
  "join_space [] = []"
| "join_space [x] = x"
| "join_space (x # y # ys) = x @ [32] @ join_space (y # ys)"

text \<open>\<^verbatim>\<open>str(n)\<close> for an integer, as the f-strings format it.\<close>

fun str_nat :: "nat \<Rightarrow> pystr" where
  "str_nat n = (if n < 10 then [48 + n] else str_nat (n div 10) @ [48 + n mod 10])"

declare str_nat.simps [simp del]

definition str_int :: "int \<Rightarrow> pystr" where
  "str_int i = (if i < 0 then 45 # str_nat (nat (- i)) else str_nat (nat i))"

subsection \<open>The prompts\<close>

definition SYSTEM_TEMPLATE :: "pystr \<Rightarrow> pystr" where
  "SYSTEM_TEMPLATE task =
     of_str ''You are a shell command generator.'' @ [10, 10] @
     of_str ''Rules:'' @ [10] @
     of_str ''- Output ONLY a single shell command on one line, no markdown, no code fences, no quotes, no explanations, no '' @ [34, 96, 34] @ of_str ''.'' @ [10] @
     of_str ''- Prefer portable POSIX sh where possible (macOS/BSD compatible if feasible).'' @ [10] @
     of_str ''- Do not include comments.'' @ [10, 10] @
     of_str ''Task: '' @ task @ [10]"

definition REFINE_TEMPLATE :: "pystr \<Rightarrow> pystr \<Rightarrow> pystr \<Rightarrow> pystr" where
  "REFINE_TEMPLATE task prev_cmd problem =
     of_str ''You returned a wrong command previously.'' @ [10, 10] @
     of_str ''Constraints:'' @ [10] @
     of_str ''- Output ONLY a single shell command on one line, no markdown, no code fences, no quotes, no explanations.'' @ [10] @
     of_str ''- Keep it portable POSIX sh when possible.'' @ [10] @
     of_str ''- Fix the issue while preserving the user'' @ [39] @ of_str ''s intent.'' @ [10, 10] @
     of_str ''User task: '' @ task @ [10] @
     of_str ''Previous command: '' @ prev_cmd @ [10] @
     of_str ''Problem description (from user or stderr): '' @ problem @ [10]"

definition EXPLAIN_TEMPLATE :: "pystr \<Rightarrow> pystr" where
  "EXPLAIN_TEMPLATE cmd =
     of_str ''Explain briefly what the command does, in 1-5 bullet points, concise:'' @ [10] @
     of_str ''Command: '' @ cmd @ [10]"

subsection \<open>The functions of the source\<close>

definition call_ollama :: "env \<Rightarrow> pystr \<Rightarrow> pystr \<Rightarrow> world \<Rightarrow> pystr outcome \<times> world" where
  "call_ollama env model prompt w =
     (let w = w\<lparr>asked := asked w @ [(model, prompt)]\<rparr>
      in case ollama env model prompt of
           Some out \<Rightarrow> (Return (strip out), w)
         | None \<Rightarrow> (SysExit 1, warn ErrOllamaFailed w))"

definition save_history :: "env \<Rightarrow> pystr \<Rightarrow> pystr \<Rightarrow> world \<Rightarrow> unit outcome \<times> world" where
  "save_history env task cmd w =
     (let ts = clock env (ticks w);
          w = w\<lparr>ticks := Suc (ticks w)\<rparr>
      in if hist_ok env
         then (Return (),
               w\<lparr>hist_file := hist_file w @
                    of_str ''['' @ ts @ of_str ''] TASK: '' @ task @ [10] @
                    of_str ''['' @ ts @ of_str ''] CMD:  '' @ cmd @ [10]\<rparr>)
         else (Uncaught OSError, w))"

definition empty_state :: state where
  "empty_state = \<lparr>st_task = None, st_cmd = None, st_last_error = None, st_exit_code = None,
     st_timestamp = None\<rparr>"

definition load_state :: "world \<Rightarrow> state" where
  "load_state w = (case state_file w of NoFile \<Rightarrow> empty_state | Unparsable \<Rightarrow> empty_state | Json d \<Rightarrow> d)"

definition save_state ::
  "env \<Rightarrow> pystr \<Rightarrow> pystr \<Rightarrow> pystr option \<Rightarrow> int option \<Rightarrow> world \<Rightarrow> unit outcome \<times> world" where
  "save_state env task cmd last_error exit_code w =
     (let data = \<lparr>st_task = Some task, st_cmd = Some cmd,
                   st_last_error = Some (case last_error of None \<Rightarrow> [] | Some e \<Rightarrow> e),
                   st_exit_code = Some (case exit_code of None \<Rightarrow> NoCode | Some n \<Rightarrow> Code n),
                   st_timestamp = Some (clock env (ticks w))\<rparr>
      in (Return (), w\<lparr>state_file := Json data, ticks := Suc (ticks w)\<rparr>))"

definition suggest :: "env \<Rightarrow> pystr \<Rightarrow> pystr \<Rightarrow> world \<Rightarrow> pystr outcome \<times> world" where
  "suggest env model task w =
     and_then (call_ollama env model (SYSTEM_TEMPLATE task) w) (\<lambda>raw w.
       let cmd = normalize_one_line (uni_alnum env) raw
       in if cmd = [] \<or> 10 \<in> set cmd then (SysExit 2, warn ErrEmptySuggest w)
          else (Return cmd, w))"

definition refine :: "env \<Rightarrow> pystr \<Rightarrow> pystr \<Rightarrow> pystr \<Rightarrow> pystr \<Rightarrow> world \<Rightarrow> pystr outcome \<times> world" where
  "refine env model task prev_cmd problem w =
     and_then
       (call_ollama env model
          (REFINE_TEMPLATE task prev_cmd
             (if strip problem = [] then of_str ''no details'' else strip problem)) w)
       (\<lambda>raw w.
          let cmd = normalize_one_line (uni_alnum env) raw
          in if cmd = [] \<or> 10 \<in> set cmd then (SysExit 2, warn ErrEmptyRefine w)
             else (Return cmd, w))"

definition explain :: "env \<Rightarrow> pystr \<Rightarrow> pystr \<Rightarrow> world \<Rightarrow> pystr outcome \<times> world" where
  "explain env model cmd w =
     and_then (call_ollama env model (EXPLAIN_TEMPLATE cmd) w) (\<lambda>out w. (Return (strip out), w))"

subsection \<open>The four modes of \<^verbatim>\<open>main\<close>\<close>

text \<open>The answers \<^verbatim>\<open>("y","yes")\<close>, after \<^verbatim>\<open>.lower().strip()\<close>.\<close>

definition says_yes :: "env \<Rightarrow> pystr \<Rightarrow> bool" where
  "says_yes env line \<longleftrightarrow>
     strip (uni_lower env line) = of_str ''y'' \<or> strip (uni_lower env line) = of_str ''yes''"

text \<open>\<^verbatim>\<open>if not args.no_history: save_history(task, cmd)\<close>\<close>

definition log_history :: "env \<Rightarrow> args \<Rightarrow> pystr \<Rightarrow> pystr \<Rightarrow> world \<Rightarrow> unit outcome \<times> world" where
  "log_history env args task cmd w =
     (if \<not> args_no_history args then save_history env task cmd w else (Return (), w))"

text \<open>Lines 135-159. A value of the state is false when its key is missing or it is empty.\<close>

definition refine_mode :: "env \<Rightarrow> args \<Rightarrow> state \<Rightarrow> world \<Rightarrow> unit outcome \<times> world" where
  "refine_mode env args state w =
     and_then
       (if args_use_last args then
          (case (st_task state, st_cmd state) of
             (Some task, Some prev_cmd) \<Rightarrow>
               if task = [] \<or> prev_cmd = [] then (SysExit 1, warn ErrNoPreviousState w)
               else (Return (task, prev_cmd,
                       if args_why args \<noteq> [] then args_why args
                       else (case st_last_error state of None \<Rightarrow> [] | Some e \<Rightarrow> e)), w)
           | _ \<Rightarrow> (SysExit 1, warn ErrNoPreviousState w))
        else
          (if args_task args = [] then (SysExit 1, warn ErrTaskOrUseLast w)
           else
             let prev_cmd = (case st_cmd state of None \<Rightarrow> [] | Some c \<Rightarrow> c)
             in (Return (join_space (args_task args), prev_cmd, args_why args),
                 if prev_cmd = [] then warn WarnNoPreviousCommand w else w)))
       (\<lambda>(task, prev_cmd, problem) w.
          and_then (refine env (args_model args) task prev_cmd problem w) (\<lambda>cmd w.
          and_then (log_history env args task cmd w) (\<lambda>_ w.
          and_then (save_state env task cmd None None w) (\<lambda>_ w.
          (Return (), emit (Line cmd) w)))))"

text \<open>Lines 162-172.\<close>

definition suggest_mode :: "env \<Rightarrow> args \<Rightarrow> world \<Rightarrow> unit outcome \<times> world" where
  "suggest_mode env args w =
     (if args_task args = [] then (SysExit 1, warn ErrProvideTask w)
      else
        let task = join_space (args_task args)
        in and_then (suggest env (args_model args) task w) (\<lambda>cmd w.
           and_then (log_history env args task cmd w) (\<lambda>_ w.
           and_then (save_state env task cmd None None w) (\<lambda>_ w.
           (Return (), emit (Line cmd) w)))))"

text \<open>Lines 174-189.\<close>

definition explain_mode :: "env \<Rightarrow> args \<Rightarrow> state \<Rightarrow> world \<Rightarrow> unit outcome \<times> world" where
  "explain_mode env args state w =
     and_then
       (if strip (args_cmd args) \<noteq> [] then (Return (strip (args_cmd args)), w)
        else (case st_cmd state of
                Some c \<Rightarrow> if c = [] then (SysExit 1, warn ErrNoCommand w) else (Return c, w)
              | None \<Rightarrow> (SysExit 1, warn ErrNoCommand w)))
       (\<lambda>cmd w.
          and_then (explain env (args_model args) cmd w) (\<lambda>expl w.
          (Return (), emit (Explanation cmd expl) w)))"

text \<open>
  Lines 199-211, the confirmation: \<open>Return ()\<close> when the command is to be run.
\<close>

definition confirm :: "env \<Rightarrow> pystr \<Rightarrow> pystr \<Rightarrow> world \<Rightarrow> unit outcome \<times> world" where
  "confirm env task cmd w =
     (if is_dangerous (uni_alnum env) cmd then
        and_then (py_input AskYES (warn WarnDangerous w)) (\<lambda>line w.
          if strip line \<noteq> of_str ''YES'' then
            and_then (save_state env task cmd None None (emit Aborted w)) (\<lambda>_ w. (SysExit 3, w))
          else (Return (), w))
      else
        and_then (py_input AskRun w) (\<lambda>line w.
          if \<not> says_yes env line then
            and_then (save_state env task cmd None None (emit Aborted w)) (\<lambda>_ w. (SysExit 0, w))
          else (Return (), w)))"

text \<open>
  Lines 230-247, after the user asked for a refinement. \<^verbatim>\<open>subprocess.run\<close> with
  \<^verbatim>\<open>check=True\<close> raises \<^verbatim>\<open>CalledProcessError\<close> on a nonzero status, which the handler
  of line 241 catches.
\<close>

definition run_improved :: "env \<Rightarrow> args \<Rightarrow> pystr \<Rightarrow> pystr \<Rightarrow> pystr \<Rightarrow> world \<Rightarrow> unit outcome \<times> world" where
  "run_improved env args task cmd err w =
     and_then (refine env (args_model args) task cmd err w) (\<lambda>improved w.
     and_then (py_input AskRunImproved (emit (Improved improved) w)) (\<lambda>line w.
       if says_yes env line then
         let res2 = run_shell env (args_shell args) improved;
             w = w\<lparr>ran := ran w @ [(args_shell args, improved)]\<rparr>
         in if returncode res2 = 0 then
              and_then (log_history env args task improved w) (\<lambda>_ w.
              and_then (save_state env task improved (Some []) (Some 0) w) (\<lambda>_ w.
              (SysExit 0, w)))
            else
              and_then
                (save_state env task improved
                   (Some (of_str ''exit '' @ str_int (returncode res2))) (Some (returncode res2))
                   (warn (ErrImprovedFailed (returncode res2)) w))
                (\<lambda>_ w. (SysExit (returncode res2), w))
       else
         and_then (save_state env task improved None None w) (\<lambda>_ w. (SysExit 0, w))))"

text \<open>
  Lines 213-249, the execution. The first \<^verbatim>\<open>subprocess.run\<close> has no \<^verbatim>\<open>check=True\<close>
  and raises no \<^verbatim>\<open>CalledProcessError\<close>, and \<^verbatim>\<open>sys.exit\<close> is no such error: the handler
  of line 250 is never entered.
\<close>

definition execute :: "env \<Rightarrow> args \<Rightarrow> pystr \<Rightarrow> pystr \<Rightarrow> world \<Rightarrow> unit outcome \<times> world" where
  "execute env args task cmd w =
     (let completed = run_shell env (args_shell args) cmd;
          w = w\<lparr>ran := ran w @ [(args_shell args, cmd)]\<rparr>;
          rc = returncode completed
      in if rc = 0 then
           and_then (log_history env args task cmd (emit (CapturedStdout (c_stdout completed)) w)) (\<lambda>_ w.
           and_then (save_state env task cmd (Some []) (Some 0) w) (\<lambda>_ w.
           (SysExit 0, w)))
         else
           and_then
             (save_state env task cmd (Some (strip (c_stderr completed))) (Some rc)
                (warn (CapturedStderr (c_stderr completed)) w))
             (\<lambda>_ w.
           and_then (py_input AskRefine (warn (ErrCommandFailed rc) w)) (\<lambda>line w.
             if says_yes env line then run_improved env args task cmd (c_stderr completed) w
             else (SysExit rc, w))))"

text \<open>Lines 191-253.\<close>

definition run_mode :: "env \<Rightarrow> args \<Rightarrow> world \<Rightarrow> unit outcome \<times> world" where
  "run_mode env args w =
     (if args_task args = [] then (SysExit 1, warn ErrProvideTask w)
      else
        let task = join_space (args_task args)
        in and_then (suggest env (args_model args) task w) (\<lambda>cmd w.
           and_then (confirm env task cmd (emit (Suggested cmd) w)) (\<lambda>_ w.
           execute env args task cmd w)))"

definition main :: "env \<Rightarrow> args \<Rightarrow> world \<Rightarrow> unit outcome \<times> world" where
  "main env args w =
     (let state = load_state w
      in case args_mode args of
           Refine \<Rightarrow> refine_mode env args state w
         | Suggest \<Rightarrow> suggest_mode env args w
         | Explain \<Rightarrow> explain_mode env args state w
         | Run \<Rightarrow> run_mode env args w)"

subsection \<open>A concrete session\<close>

definition ascii_lower :: "pystr \<Rightarrow> pystr" where
  "ascii_lower s = map (\<lambda>c. if 65 \<le> c \<and> c \<le> 90 then c + 32 else c) s"

definition demo_env :: "pystr \<Rightarrow> completed \<Rightarrow> bool \<Rightarrow> env" where
  "demo_env reply result writable =
     \<lparr>uni_alnum = ascii_alnum, uni_lower = ascii_lower, ollama = (\<lambda>model prompt. Some reply),
      run_shell = (\<lambda>shell cmd. result), clock = (\<lambda>n. of_str ''2025-01-01T00:00:00''),
      hist_ok = writable\<rparr>"

definition demo_args :: "mode \<Rightarrow> pystr list \<Rightarrow> bool \<Rightarrow> args" where
  "demo_args m task reuse =
     \<lparr>args_task = task, args_model = of_str ''mistral'', args_mode = m,
      args_shell = of_str ''/bin/bash'', args_no_history = False, args_use_last = reuse,
      args_why = [], args_cmd = []\<rparr>"

definition demo_world :: "state_file \<Rightarrow> pystr list \<Rightarrow> world" where
  "demo_world file lines =
     \<lparr>state_file = file, hist_file = [], stdout = [], stderr = [], stdin = lines, ran = [],
      asked = [], ticks = 0\<rparr>"

text \<open>A stored state with a task and a command.\<close>

definition demo_state :: state where
  "demo_state = \<lparr>st_task = Some (of_str ''list files''), st_cmd = Some (of_str ''ls''),
     st_last_error = Some [], st_exit_code = Some NoCode,
     st_timestamp = Some (of_str ''2025-01-01T00:00:00'')\<rparr>"

section \<open>Notions used in the statements\<close>

text \<open>
  Two properties of a string: no two white-space characters stand next to each other, and
  the string neither starts nor ends with white space.
\<close>

definition no_ws_pair :: "pystr \<Rightarrow> bool" where
  "no_ws_pair t \<longleftrightarrow> successively (\<lambda>a b. \<not> (is_space a \<and> is_space b)) t"

definition trimmed :: "pystr \<Rightarrow> bool" where
  "trimmed t \<longleftrightarrow> (t = [] \<or> (\<not> is_space (hd t) \<and> \<not> is_space (last t)))"

text \<open>A pattern that never matches the empty string.\<close>

definition never_empty :: "pattern \<Rightarrow> (nat \<Rightarrow> bool) \<Rightarrow> bool" where
  "never_empty pat alnum \<longleftrightarrow> (\<forall>prev rest. re_match pat alnum prev rest \<noteq> Some 0)"

text \<open>
  A string that starts with a code fence, ends with one, or starts and ends with a
  backtick: the strings on which the first steps of the normalizer act.
\<close>

definition backtick_framed :: "pystr \<Rightarrow> bool" where
  "backtick_framed t \<longleftrightarrow>
     startswith t (of_str ''```'') \<or> endswith t (of_str ''```'') \<or>
     (startswith t (of_str ''`'') \<and> endswith t (of_str ''`''))"

text \<open>The model answers the prompt with a text that normalizes to the command \<open>cmd\<close>.\<close>

definition generates :: "env \<Rightarrow> pystr \<Rightarrow> pystr \<Rightarrow> pystr \<Rightarrow> bool" where
  "generates env model prompt cmd \<longleftrightarrow>
     (\<exists>raw. ollama env model prompt = Some raw \<and>
            normalize_one_line (uni_alnum env) (strip raw) = cmd \<and> cmd \<noteq> [])"

text \<open>The user's answer lets the command run.\<close>

definition accepted :: "env \<Rightarrow> pystr \<Rightarrow> pystr \<Rightarrow> bool" where
  "accepted env cmd line \<longleftrightarrow>
     (if is_dangerous (uni_alnum env) cmd then strip line = of_str ''YES'' else says_yes env line)"

section \<open>Properties of the regular-expression functions\<close>

lemma backtrack_complete:
  assumes "lo \<le> i" "i \<le> j" "k (prev_after i prev rest) (drop i rest) \<noteq> None"
  shows "backtrack k prev rest lo j \<noteq> None"
  using assms
proof (induction j)
  case 0
  then show ?case by simp
next
  case (Suc j)
  show ?case
  proof (cases "i = Suc j")
    case True
    with Suc.prems show ?thesis by auto
  next
    case False
    with Suc.prems have "i \<le> j" by simp
    with Suc have "backtrack k prev rest lo j \<noteq> None" by simp
    moreover from \<open>lo \<le> i\<close> \<open>i \<le> j\<close> have "\<not> Suc j < lo" by simp
    ultimately show ?thesis by (simp split: option.splits)
  qed
qed

lemma sub_from_Nil:
  "sub_from pat alnum repl prev [] = (case re_match pat alnum prev [] of None \<Rightarrow> [] | Some n \<Rightarrow> repl)"
proof (cases "re_match pat alnum prev []")
  case None
  then show ?thesis by (subst sub_from.simps) simp
next
  case (Some n)
  with re_match_le [OF Some] show ?thesis by (subst sub_from.simps) simp
qed

lemma sub_from_no_match:
  "re_match pat alnum prev (c # cs) = None \<Longrightarrow>
     sub_from pat alnum repl prev (c # cs) = c # sub_from pat alnum repl (Some c) cs"
  by (subst sub_from.simps) simp

lemma sub_from_empty_match:
  "re_match pat alnum prev (c # cs) = Some 0 \<Longrightarrow>
     sub_from pat alnum repl prev (c # cs) = repl @ c # sub_from pat alnum repl (Some c) cs"
  by (subst sub_from.simps) simp

lemma sub_from_match:
  "re_match pat alnum prev rest = Some (Suc n) \<Longrightarrow>
     sub_from pat alnum repl prev rest =
       repl @ sub_from pat alnum repl (Some (rest ! n)) (drop (Suc n) rest)"
  by (subst sub_from.simps) simp

text \<open>The cases of one step of the scan.\<close>

lemma sub_from_cases:
  obtains (Nil) "rest = []"
  | (no_match) c cs where "rest = c # cs" "re_match pat alnum prev rest = None"
  | (empty_match) c cs where "rest = c # cs" "re_match pat alnum prev rest = Some 0"
  | (match) n where "re_match pat alnum prev rest = Some (Suc n)" "Suc n \<le> length rest"
proof (cases "re_match pat alnum prev rest")
  case None
  then show ?thesis using Nil no_match by (cases rest) auto
next
  case (Some n)
  then show ?thesis using Nil empty_match match [of "n - 1"] re_match_le [OF Some]
    by (cases rest; cases n) auto
qed

lemma set_sub_from: "set (sub_from pat alnum repl prev rest) \<subseteq> set rest \<union> set repl"
proof (induction "length rest" arbitrary: prev rest rule: less_induct)
  case less
  show ?case
  proof (cases rule: sub_from_cases [where rest = rest and pat = pat and alnum = alnum and prev = prev])
    case Nil
    then show ?thesis by (cases "re_match pat alnum prev []") (simp_all add: sub_from_Nil)
  next
    case (no_match c cs)
    with less [of cs "Some c"] show ?thesis by (auto simp: sub_from_no_match)
  next
    case (empty_match c cs)
    with less [of cs "Some c"] show ?thesis by (auto simp: sub_from_empty_match)
  next
    case (match n)
    then have "length (drop (Suc n) rest) < length rest" by simp
    from less [OF this, of "Some (rest ! n)"] set_drop_subset [of "Suc n" rest] match
    show ?thesis by (auto simp: sub_from_match)
  qed
qed

lemma re_match_star_last: "re_match [Rep cls 0 hi] alnum prev rest \<noteq> None"
  by (simp add: backtrack_complete [where i = 0])

lemma nl_match_at_newline: "re_match NL_RUN alnum prev (10 # cs) \<noteq> None"
proof -
  have "re_match [chr 10, Rep [Space] 0 None] alnum prev (10 # cs) \<noteq> None"
    using re_match_star_last [of "[Space]" None alnum "Some 10" cs]
    by (simp add: chr_def split: option.splits)
  then show ?thesis
    unfolding NL_RUN_def
    by (simp add: backtrack_complete [where i = 0])
qed

lemma chr_match_pos:
  assumes "re_match (chr c # pat) alnum prev rest = Some m"
  shows "0 < m"
proof -
  from assms obtain i n where "1 \<le> i" "m = i + n"
    unfolding chr_def by (auto dest!: backtrack_Some)
  then show ?thesis by simp
qed

lemma nl_match_pos:
  assumes "re_match NL_RUN alnum prev rest = Some n"
  shows "0 < n"
proof -
  from assms obtain i m where
    "re_match (chr 10 # [Rep [Space] 0 None]) alnum (prev_after i prev rest) (drop i rest) = Some m"
    and n: "n = i + m"
    unfolding NL_RUN_def by (auto dest!: backtrack_Some)
  with chr_match_pos show ?thesis by fastforce
qed

lemma sub_nl_no_newline:
  "10 \<notin> set repl \<Longrightarrow> 10 \<notin> set (sub_from NL_RUN alnum repl prev rest)"
proof (induction "length rest" arbitrary: prev rest rule: less_induct)
  case less
  show ?case
  proof (cases rule: sub_from_cases [where rest = rest and pat = NL_RUN and alnum = alnum and prev = prev])
    case Nil
    with less.prems show ?thesis
      by (cases "re_match NL_RUN alnum prev []") (simp_all add: sub_from_Nil)
  next
    case (no_match c cs)
    then have "c \<noteq> 10" using nl_match_at_newline by metis
    with no_match less.hyps [of cs "Some c"] less.prems show ?thesis
      by (simp add: sub_from_no_match)
  next
    case (empty_match c cs)
    with nl_match_pos show ?thesis by fastforce
  next
    case (match n)
    then have "length (drop (Suc n) rest) < length rest" by simp
    from less.hyps [OF this less.prems, of "Some (rest ! n)"] less.prems match show ?thesis
      by (simp add: sub_from_match)
  qed
qed

lemma set_strip: "set (strip s) \<subseteq> set s"
proof -
  have "set (strip s) \<subseteq> set (rev (dropWhile is_space s))"
    unfolding strip_def by (auto dest: set_dropWhileD)
  also have "\<dots> \<subseteq> set s" by (auto dest: set_dropWhileD)
  finally show ?thesis .
qed

lemma of_str_space: "of_str '' '' = [32]"
  by (simp add: of_str_def)

text \<open>The last three steps of the normalizer, on any string.\<close>

lemma last_steps_no_newline:
  "10 \<notin> set (strip (re_sub WS_RUN alnum [32] (re_sub NL_RUN alnum [32] x)))"
proof -
  define y where "y = re_sub NL_RUN alnum [32] x"
  have y: "10 \<notin> set y"
    unfolding y_def re_sub_def by (rule sub_nl_no_newline) simp
  have "set (re_sub WS_RUN alnum [32] y) \<subseteq> set y \<union> {32}"
    unfolding re_sub_def using set_sub_from [of WS_RUN alnum "[32]" None y] by simp
  with y have "10 \<notin> set (re_sub WS_RUN alnum [32] y)" by auto
  with set_strip have "10 \<notin> set (strip (re_sub WS_RUN alnum [32] y))" by blast
  then show ?thesis by (simp add: y_def)
qed

lemma normalize_no_newline: "10 \<notin> set (normalize_one_line alnum s)"
  using last_steps_no_newline [of alnum]
  by (simp add: normalize_one_line_def Let_def of_str_space)

section \<open>The normalizer returns no newline\<close>

text \<open>
  C3: for every input string \<open>s\<close> (and whatever the alphanumeric table), the result of
  \<^verbatim>\<open>normalize_one_line\<close> contains no newline character (code point 10).
\<close>

theorem normalize_one_line_no_newline: "10 \<notin> set (normalize_one_line alnum s)"
proof (cases "s = []")
  case True
  then show ?thesis by (simp add: normalize_one_line_def)
next
  case False
  let ?x = "unwrap_backticks (re_sub FENCE_CLOSE alnum [] (re_sub FENCE_OPEN alnum [] (strip s)))"
  from False have "normalize_one_line alnum s =
      strip (re_sub WS_RUN alnum [32] (re_sub NL_RUN alnum [32] ?x))"
    by (simp add: normalize_one_line_def Let_def of_str_space)
  then show ?thesis by (simp only: last_steps_no_newline not_False_eq_True)
qed

section \<open>The search finds a match exactly when one exists\<close>

lemma take_le_takeWhile:
  "j \<le> length (takeWhile P xs) \<Longrightarrow> c \<in> set (take j xs) \<Longrightarrow> P c"
proof (induction xs arbitrary: j)
  case Nil
  then show ?case by simp
next
  case (Cons x xs)
  then show ?case by (cases j) (auto split: if_splits)
qed

lemma takeWhile_ge_take:
  "j \<le> length xs \<Longrightarrow> \<forall>c \<in> set (take j xs). P c \<Longrightarrow> j \<le> length (takeWhile P xs)"
proof (induction xs arbitrary: j)
  case Nil
  then show ?case by simp
next
  case (Cons x xs)
  then show ?case by (cases j) auto
qed

lemma longest_bound:
  "j \<le> longest alnum cls hi rest \<longleftrightarrow>
     j \<le> length (takeWhile (in_class alnum cls) rest) \<and> (case hi of None \<Rightarrow> True | Some h \<Rightarrow> j \<le> h)"
  by (cases hi) auto

lemma re_match_Rep:
  "re_match (Rep cls lo hi # pat) alnum prev rest =
     backtrack (re_match pat alnum) prev rest lo (longest alnum cls hi rest)"
  by simp

lemma matches_Rep:
  "matches (Rep cls lo hi # pat) alnum prev rest n \<longleftrightarrow>
     (\<exists>j. lo \<le> j \<and> (case hi of None \<Rightarrow> True | Some h \<Rightarrow> j \<le> h) \<and> j \<le> length rest \<and> j \<le> n \<and>
          (\<forall>c \<in> set (take j rest). in_class alnum cls c) \<and>
          matches pat alnum (prev_after j prev rest) (drop j rest) (n - j))"
  by simp

lemma re_match_sound:
  "re_match pat alnum prev rest = Some n \<Longrightarrow> matches pat alnum prev rest n"
proof (induction pat arbitrary: prev rest n)
  case Nil
  then show ?case by simp
next
  case (Cons i pat)
  show ?case
  proof (cases i)
    case (Rep cls lo hi)
    from Cons.prems have "backtrack (re_match pat alnum) prev rest lo (longest alnum cls hi rest) = Some n"
      unfolding Rep re_match_Rep .
    from backtrack_Some [OF this] obtain j m where j: "lo \<le> j" "j \<le> longest alnum cls hi rest"
      and m: "re_match pat alnum (prev_after j prev rest) (drop j rest) = Some m" and n: "n = j + m"
      by blast
    from j(2) have w: "j \<le> length (takeWhile (in_class alnum cls) rest)"
      and h: "case hi of None \<Rightarrow> True | Some h \<Rightarrow> j \<le> h"
      by (simp_all add: longest_bound)
    from w have l: "j \<le> length rest"
      by (rule order_trans [OF _ length_takeWhile_le])
    have c: "\<forall>c \<in> set (take j rest). in_class alnum cls c"
    proof
      fix c
      assume "c \<in> set (take j rest)"
      with w show "in_class alnum cls c" by (rule take_le_takeWhile)
    qed
    from Cons.IH [OF m] n have r: "matches pat alnum (prev_after j prev rest) (drop j rest) (n - j)"
      by simp
    from n have "j \<le> n" by simp
    with j(1) h l c r show ?thesis
      unfolding Rep matches_Rep by blast
  next
    case Bol
    with Cons.prems have "prev = None" "re_match pat alnum prev rest = Some n"
      by (simp_all split: if_splits)
    with Cons.IH Bol show ?thesis by simp
  next
    case Eol
    with Cons.prems have "at_eol rest" "re_match pat alnum prev rest = Some n"
      by (simp_all split: if_splits)
    with Cons.IH Eol show ?thesis by simp
  next
    case WordBoundary
    with Cons.prems have "at_boundary alnum prev rest" "re_match pat alnum prev rest = Some n"
      by (simp_all split: if_splits)
    with Cons.IH WordBoundary show ?thesis by simp
  qed
qed

lemma re_match_complete:
  "matches pat alnum prev rest n \<Longrightarrow> re_match pat alnum prev rest \<noteq> None"
proof (induction pat arbitrary: prev rest n)
  case Nil
  then show ?case by simp
next
  case (Cons i pat)
  show ?case
  proof (cases i)
    case (Rep cls lo hi)
    from Cons.prems obtain j where j: "lo \<le> j" "case hi of None \<Rightarrow> True | Some h \<Rightarrow> j \<le> h"
      "j \<le> length rest" "\<forall>c \<in> set (take j rest). in_class alnum cls c"
      and m: "matches pat alnum (prev_after j prev rest) (drop j rest) (n - j)"
      unfolding Rep matches_Rep by blast
    from j have "j \<le> longest alnum cls hi rest"
      by (simp add: longest_bound takeWhile_ge_take)
    moreover from Cons.IH [OF m]
    have "re_match pat alnum (prev_after j prev rest) (drop j rest) \<noteq> None" .
    ultimately have "backtrack (re_match pat alnum) prev rest lo (longest alnum cls hi rest) \<noteq> None"
      using j(1) by (intro backtrack_complete [where i = j])
    then show ?thesis unfolding Rep re_match_Rep .
  next
    case Bol
    with Cons.prems have "prev = None" and "matches pat alnum prev rest n" by auto
    with Cons.IH [of prev rest n] Bol show ?thesis by simp
  next
    case Eol
    with Cons.prems have "at_eol rest" and "matches pat alnum prev rest n" by auto
    with Cons.IH [of prev rest n] Eol show ?thesis by simp
  next
    case WordBoundary
    with Cons.prems have "at_boundary alnum prev rest" and "matches pat alnum prev rest n" by auto
    with Cons.IH [of prev rest n] WordBoundary show ?thesis by simp
  qed
qed

lemma re_match_iff_matches:
  "re_match pat alnum prev rest \<noteq> None \<longleftrightarrow> (\<exists>n. matches pat alnum prev rest n)"
  using re_match_sound re_match_complete by blast

lemma prev_after_Cons:
  "prev_after (Suc b) prev (c # cs) = prev_after b (Some c) cs"
  by (cases b) simp_all

lemma search_from_iff:
  "search_from pat alnum prev rest \<noteq> None \<longleftrightarrow>
     (\<exists>b \<le> length rest. re_match pat alnum (prev_after b prev rest) (drop b rest) \<noteq> None)"
proof (induction rest arbitrary: prev)
  case Nil
  then show ?case by (simp split: option.splits)
next
  case (Cons c cs)
  have "(\<exists>b \<le> length (c # cs). re_match pat alnum (prev_after b prev (c # cs)) (drop b (c # cs)) \<noteq> None)
      \<longleftrightarrow> re_match pat alnum prev (c # cs) \<noteq> None \<or>
          (\<exists>b \<le> length cs. re_match pat alnum (prev_after b (Some c) cs) (drop b cs) \<noteq> None)"
    (is "?L \<longleftrightarrow> ?R")
  proof
    assume ?L
    then obtain b where b: "b \<le> length (c # cs)"
      "re_match pat alnum (prev_after b prev (c # cs)) (drop b (c # cs)) \<noteq> None" by blast
    show ?R
    proof (cases b)
      case 0
      with b show ?thesis by simp
    next
      case (Suc b')
      with b have "b' \<le> length cs"
        "re_match pat alnum (prev_after b' (Some c) cs) (drop b' cs) \<noteq> None"
        by (simp_all add: prev_after_Cons del: prev_after.simps)
      then show ?thesis by blast
    qed
  next
    assume ?R
    then show ?L
    proof
      assume "re_match pat alnum prev (c # cs) \<noteq> None"
      then show ?L by (intro exI [of _ 0]) simp
    next
      assume "\<exists>b \<le> length cs. re_match pat alnum (prev_after b (Some c) cs) (drop b cs) \<noteq> None"
      then obtain b where "b \<le> length cs"
        "re_match pat alnum (prev_after b (Some c) cs) (drop b cs) \<noteq> None" by blast
      then show ?L
        by (intro exI [of _ "Suc b"]) (simp only: prev_after_Cons drop_Suc_Cons length_Cons Suc_le_mono simp_thms)
    qed
  qed
  moreover have "search_from pat alnum prev (c # cs) \<noteq> None \<longleftrightarrow>
      re_match pat alnum prev (c # cs) \<noteq> None \<or> search_from pat alnum (Some c) cs \<noteq> None"
    by (simp split: option.splits)
  ultimately show ?case
    by (simp only: Cons [of "Some c"])
qed

lemma re_search_iff_occurs: "re_search pat alnum s \<noteq> None \<longleftrightarrow> occurs_in pat alnum s"
  unfolding re_search_def occurs_in_def search_from_iff re_match_iff_matches by blast

lemma any_pattern_iff:
  "any_pattern pats alnum cmd \<longleftrightarrow> (\<exists>pat \<in> set pats. re_search pat alnum cmd \<noteq> None)"
  by (induction pats) auto

section \<open>The danger classifier and its patterns\<close>

lemmas eval_defs =
  re_search_def re_sub_def sub_from.simps is_dangerous_def DANGEROUS_PATTERNS_def
  FENCE_OPEN_def FENCE_CLOSE_def NL_RUN_def WS_RUN_def lits_def chr_def of_str_def strip_def
  startswith_def endswith_def slice_1_m1_def unwrap_backticks_def normalize_one_line_def
  is_space_def is_word_def ascii_alnum_def at_eol_def at_boundary_def

text \<open>
  C2: for every command, \<^verbatim>\<open>is_dangerous\<close> returns True if and only if at least one
  pattern of \<^verbatim>\<open>DANGEROUS_PATTERNS\<close> matches somewhere in the command.
\<close>

theorem is_dangerous_iff_some_pattern_matches:
  "is_dangerous alnum cmd \<longleftrightarrow> (\<exists>pat \<in> set DANGEROUS_PATTERNS. occurs_in pat alnum cmd)"
  unfolding is_dangerous_def any_pattern_iff re_search_iff_occurs ..

theorem is_dangerous_witness:
  "is_dangerous ascii_alnum (of_str ''rm -rf /home'') \<and>
   (\<exists>pat \<in> set DANGEROUS_PATTERNS. occurs_in pat ascii_alnum (of_str ''rm -rf /home'')) \<and>
   \<not> is_dangerous ascii_alnum (of_str ''ls -la'') \<and>
   \<not> (\<exists>pat \<in> set DANGEROUS_PATTERNS. occurs_in pat ascii_alnum (of_str ''ls -la''))"
proof -
  have a: "is_dangerous ascii_alnum (of_str ''rm -rf /home'')"
    by (simp add: eval_defs)
  have b: "\<not> is_dangerous ascii_alnum (of_str ''ls -la'')"
    by (simp add: eval_defs)
  from a b show ?thesis
    using is_dangerous_iff_some_pattern_matches [of ascii_alnum "of_str ''rm -rf /home''"]
      is_dangerous_iff_some_pattern_matches [of ascii_alnum "of_str ''ls -la''"]
    by blast
qed

section \<open>Fixed points of the normalizer\<close>

lemma no_ws_pair_append: "no_ws_pair (xs @ ys) \<Longrightarrow> no_ws_pair xs \<and> no_ws_pair ys"
  unfolding no_ws_pair_def by (simp add: successively_append_iff)

lemma no_ws_pair_rev: "no_ws_pair (rev xs) \<longleftrightarrow> no_ws_pair xs"
proof -
  have "successively (\<lambda>x y. \<not> (is_space y \<and> is_space x)) xs =
      successively (\<lambda>a b. \<not> (is_space a \<and> is_space b)) xs"
    by (rule arg_cong [where f = "\<lambda>P. successively P xs"]) (auto simp: fun_eq_iff)
  then show ?thesis unfolding no_ws_pair_def successively_rev .
qed

lemma no_ws_pair_drop: "no_ws_pair xs \<Longrightarrow> no_ws_pair (drop n xs)"
  using no_ws_pair_append [of "take n xs" "drop n xs"] by simp

lemma no_ws_pair_dropWhile: "no_ws_pair xs \<Longrightarrow> no_ws_pair (dropWhile P xs)"
  using no_ws_pair_append [of "takeWhile P xs" "dropWhile P xs"] by simp

lemma no_ws_pair_strip: "no_ws_pair xs \<Longrightarrow> no_ws_pair (strip xs)"
  unfolding strip_def by (simp add: no_ws_pair_rev no_ws_pair_dropWhile)

lemma no_ws_pair_Cons:
  "no_ws_pair (c # cs) \<longleftrightarrow> (cs = [] \<or> \<not> (is_space c \<and> is_space (hd cs))) \<and> no_ws_pair cs"
  unfolding no_ws_pair_def by (cases cs) (auto simp: successively_Cons)

lemma trimmed_strip: "trimmed (strip s)"
proof -
  define u where "u = dropWhile is_space s"
  define v where "v = dropWhile is_space (rev u)"
  have s: "strip s = rev v" by (simp add: strip_def u_def v_def)
  show ?thesis
  proof (cases "v = []")
    case True
    with s show ?thesis by (simp add: trimmed_def)
  next
    case False
    then have hv: "\<not> is_space (hd v)" unfolding v_def by (rule hd_dropWhile)
    from False have "last (rev v) = hd v" by (simp add: last_rev)
    with hv have l: "\<not> is_space (last (strip s))" by (simp add: s)
    have "set v \<subseteq> set u" unfolding v_def using set_dropWhileD by fastforce
    from False obtain w where w: "rev u = w @ v"
      unfolding v_def by (metis takeWhile_dropWhile_id)
    then have "u = rev v @ rev w" by (metis rev_append rev_rev_ident)
    with False have "hd u = hd (rev v)" by simp
    moreover from False w have "u \<noteq> []" by auto
    then have "\<not> is_space (hd u)" unfolding u_def by (rule hd_dropWhile)
    ultimately have "\<not> is_space (hd (strip s))" by (simp add: s)
    with l show ?thesis by (simp add: trimmed_def)
  qed
qed

lemma strip_trimmed: "trimmed t \<Longrightarrow> strip t = t"
proof (cases "t = []")
  case True
  then show ?thesis by (simp add: strip_def)
next
  case False
  assume "trimmed t"
  with False have h: "\<not> is_space (hd t)" and l: "\<not> is_space (last t)"
    by (simp_all add: trimmed_def)
  from False h have "dropWhile is_space t = t" by (cases t) simp_all
  moreover from False l have "dropWhile is_space (rev t) = rev t"
    by (cases "rev t") (simp_all add: last_rev [symmetric] hd_rev)
  ultimately show ?thesis by (simp add: strip_def)
qed

lemma backtrack_first:
  assumes "lo \<le> j" "k (prev_after j prev rest) (drop j rest) = Some m"
  shows "backtrack k prev rest lo j = Some (j + m)"
  using assms by (cases j) auto

lemma backtrack_below: "j < lo \<Longrightarrow> backtrack k prev rest lo j = None"
  by (cases j) auto

lemma ws_match:
  "re_match WS_RUN alnum prev rest =
     (if 2 \<le> length (takeWhile is_space rest) then Some (length (takeWhile is_space rest)) else None)"
proof -
  have c: "in_class alnum [Space] = is_space" by (auto simp: fun_eq_iff)
  show ?thesis
  proof (cases "2 \<le> length (takeWhile is_space rest)")
    case True
    then show ?thesis
      unfolding WS_RUN_def
      by (simp add: c backtrack_first [where m = 0])
  next
    case False
    then show ?thesis
      unfolding WS_RUN_def
      by (simp add: c backtrack_below)
  qed
qed

lemma sub_ws_head:
  assumes "sub_from WS_RUN alnum [32] prev rest = x # xs" "is_space x"
  shows "rest \<noteq> [] \<and> is_space (hd rest)"
proof (cases rest)
  case Nil
  with assms show ?thesis by (simp add: sub_from_Nil ws_match)
next
  case (Cons d ds)
  show ?thesis
  proof (cases "is_space d")
    case True
    with Cons show ?thesis by simp
  next
    case False
    with Cons have "re_match WS_RUN alnum prev rest = None" by (simp add: ws_match)
    with Cons assms False show ?thesis by (simp add: sub_from_no_match)
  qed
qed

lemma sub_ws_no_pair: "no_ws_pair (sub_from WS_RUN alnum [32] prev rest)"
proof (induction "length rest" arbitrary: prev rest rule: less_induct)
  case less
  let ?n = "length (takeWhile is_space rest)"
  show ?case
  proof (cases rule: sub_from_cases [where rest = rest and pat = WS_RUN and alnum = alnum and prev = prev])
    case Nil
    then show ?thesis by (simp add: sub_from_Nil ws_match no_ws_pair_def)
  next
    case (no_match c cs)
    let ?out = "sub_from WS_RUN alnum [32] (Some c) cs"
    from no_match have out: "sub_from WS_RUN alnum [32] prev rest = c # ?out"
      by (simp add: sub_from_no_match)
    from no_match have np: "no_ws_pair ?out" using less [of cs "Some c"] by simp
    from no_match have short: "\<not> 2 \<le> ?n" by (simp add: ws_match split: if_splits)
    have "?out = [] \<or> \<not> (is_space c \<and> is_space (hd ?out))"
    proof (cases ?out)
      case Nil
      then show ?thesis by simp
    next
      case (Cons x xs)
      show ?thesis
      proof (cases "is_space c \<and> is_space x")
        case True
        with Cons sub_ws_head [of alnum "Some c" cs x xs] have "cs \<noteq> [] \<and> is_space (hd cs)" by simp
        with True no_match(1) have "2 \<le> ?n" by (cases cs) simp_all
        with short show ?thesis by simp
      next
        case False
        with Cons show ?thesis by simp
      qed
    qed
    with np out show ?thesis by (simp add: no_ws_pair_Cons)
  next
    case (empty_match c cs)
    then show ?thesis by (simp add: ws_match split: if_splits)
  next
    case (match n)
    let ?rest' = "drop (Suc n) rest"
    let ?out = "sub_from WS_RUN alnum [32] (Some (rest ! n)) ?rest'"
    from match have n: "Suc n = ?n" by (simp add: ws_match split: if_splits)
    from match have out: "sub_from WS_RUN alnum [32] prev rest = 32 # ?out"
      by (simp add: sub_from_match)
    from match have "length ?rest' < length rest" by simp
    from less [OF this] have np: "no_ws_pair ?out" .
    have "?rest' = dropWhile is_space rest"
      unfolding n by (rule dropWhile_eq_drop [symmetric])
    then have stop: "?rest' = [] \<or> \<not> is_space (hd ?rest')"
      using hd_dropWhile [of is_space rest] by auto
    have "?out = [] \<or> \<not> is_space (hd ?out)"
    proof (cases ?out)
      case Nil
      then show ?thesis by simp
    next
      case (Cons x xs)
      show ?thesis
      proof (cases "is_space x")
        case True
        with Cons sub_ws_head [of alnum "Some (rest ! n)" ?rest' x xs]
        have "?rest' \<noteq> [] \<and> is_space (hd ?rest')" by simp
        with stop show ?thesis by simp
      next
        case False
        with Cons show ?thesis by simp
      qed
    qed
    with np out show ?thesis by (auto simp: no_ws_pair_Cons)
  qed
qed

lemma normalize_normal_form:
  "trimmed (normalize_one_line alnum s) \<and> no_ws_pair (normalize_one_line alnum s)"
proof (cases "s = []")
  case True
  then show ?thesis by (simp add: normalize_one_line_def trimmed_def no_ws_pair_def)
next
  case False
  then show ?thesis
    by (simp add: normalize_one_line_def Let_def of_str_space re_sub_def trimmed_strip
        no_ws_pair_strip sub_ws_no_pair)
qed

lemma matches_Bol:
  "matches (Bol # pat) alnum prev rest n \<longleftrightarrow> prev = None \<and> matches pat alnum prev rest n"
  by simp

lemma matches_Eol:
  "matches (Eol # pat) alnum prev rest n \<longleftrightarrow> at_eol rest \<and> matches pat alnum prev rest n"
  by simp

lemma matches_WordBoundary:
  "matches (WordBoundary # pat) alnum prev rest n \<longleftrightarrow>
     at_boundary alnum prev rest \<and> matches pat alnum prev rest n"
  by simp

declare matches.simps(2) [simp del]

lemmas matches_item = matches_Rep matches_Bol matches_Eol matches_WordBoundary

text \<open>A plain character of a pattern matches exactly itself.\<close>

lemma matches_chr:
  "matches (chr c # pat) alnum prev rest n \<longleftrightarrow>
     (\<exists>cs. rest = c # cs \<and> 0 < n \<and> matches pat alnum (Some c) cs (n - 1))"
proof
  assume "matches (chr c # pat) alnum prev rest n"
  then obtain j where j: "1 \<le> j" "j \<le> 1" "j \<le> length rest" "j \<le> n"
    "\<forall>d \<in> set (take j rest). in_class alnum [Lit c] d"
    "matches pat alnum (prev_after j prev rest) (drop j rest) (n - j)"
    unfolding chr_def matches_Rep by auto
  from j(1,2) have j1: "j = Suc 0" by simp
  with j(3) obtain d cs where r: "rest = d # cs" by (cases rest) auto
  with j(5) j1 have "d = c" by simp
  with r j1 j(4,6) show "\<exists>cs. rest = c # cs \<and> 0 < n \<and> matches pat alnum (Some c) cs (n - 1)"
    by simp
next
  assume "\<exists>cs. rest = c # cs \<and> 0 < n \<and> matches pat alnum (Some c) cs (n - 1)"
  then obtain cs where "rest = c # cs" "0 < n" "matches pat alnum (Some c) cs (n - 1)" by blast
  then show "matches (chr c # pat) alnum prev rest n"
    unfolding chr_def matches_Rep by (intro exI [of _ "Suc 0"]) simp
qed

lemma lits_fence: "lits ''```'' = [chr 96, chr 96, chr 96]"
  by (simp add: lits_def)

lemma prev_after_None: "prev_after b None s = None \<Longrightarrow> b = 0"
  by (cases b) simp_all

lemma sub_from_no_occurrence:
  "search_from pat alnum prev rest = None \<Longrightarrow> sub_from pat alnum repl prev rest = rest"
proof (induction rest arbitrary: prev)
  case Nil
  then show ?case by (simp add: sub_from_Nil split: option.splits)
next
  case (Cons c cs)
  from Cons.prems have m: "re_match pat alnum prev (c # cs) = None"
    and s: "search_from pat alnum (Some c) cs = None"
    by (auto split: option.splits)
  from Cons.IH [OF s] m show ?case by (simp add: sub_from_no_match)
qed

lemma re_sub_no_occurrence: "\<not> occurs_in pat alnum s \<Longrightarrow> re_sub pat alnum repl s = s"
proof -
  assume "\<not> occurs_in pat alnum s"
  with re_search_iff_occurs [of pat alnum s] have "search_from pat alnum None s = None"
    unfolding re_search_def by blast
  then show ?thesis unfolding re_sub_def by (rule sub_from_no_occurrence)
qed

lemma fence_open_occurs:
  assumes "occurs_in FENCE_OPEN alnum s"
  shows "startswith s (of_str ''```'')"
proof -
  from assms obtain b n where m: "matches FENCE_OPEN alnum (prev_after b None s) (drop b s) n"
    unfolding occurs_in_def by blast
  then have "prev_after b None s = None" unfolding FENCE_OPEN_def matches_Bol by simp
  then have "b = 0" by (rule prev_after_None)
  with m obtain cs where "s = 96 # 96 # 96 # cs"
    unfolding FENCE_OPEN_def lits_fence matches_Bol by (auto simp: matches_chr)
  then show ?thesis by (simp add: startswith_def of_str_def)
qed

lemma fence_close_occurs:
  assumes "occurs_in FENCE_CLOSE alnum s"
  shows "10 \<in> set s \<or> endswith s (of_str ''```'')"
proof -
  from assms obtain b n where b: "b \<le> length s"
    and m: "matches FENCE_CLOSE alnum (prev_after b None s) (drop b s) n"
    unfolding occurs_in_def by blast
  let ?p = "prev_after b None s" and ?r = "drop b s"
  from m obtain j where j: "j \<le> 1" "j \<le> length ?r" "\<forall>d \<in> set (take j ?r). in_class alnum [Lit 10] d"
    and m': "matches ([chr 96, chr 96, chr 96] @ [Eol]) alnum (prev_after j ?p ?r) (drop j ?r) (n - j)"
    unfolding FENCE_CLOSE_def lits_fence matches_Rep by auto
  have sub: "set ?r \<subseteq> set s" by (rule set_drop_subset)
  show ?thesis
  proof (cases j)
    case 0
    with m' obtain cs where r: "?r = 96 # 96 # 96 # cs" and e: "at_eol cs"
      by (auto simp: matches_chr matches_Eol)
    show ?thesis
    proof (cases "cs = []")
      case True
      with r have d: "drop b s = [96, 96, 96]" by simp
      then have "length s - b = 3" by (metis length_drop length_Cons list.size(3) numeral_3_eq_3)
      with b d have "3 \<le> length s \<and> drop (length s - 3) s = [96, 96, 96]"
        by (metis diff_diff_cancel diff_le_self)
      then show ?thesis by (simp add: endswith_def of_str_def numeral_3_eq_3)
    next
      case False
      with e have "cs = [10]" by (simp add: at_eol_def)
      with r have "10 \<in> set ?r" by simp
      with sub show ?thesis by blast
    qed
  next
    case (Suc j')
    with j(1) have "j = Suc 0" by simp
    with j(2,3) have "10 \<in> set ?r" by (cases ?r) auto
    with sub show ?thesis by blast
  qed
qed

lemma nl_run_occurs:
  assumes "occurs_in NL_RUN alnum s"
  shows "10 \<in> set s"
proof -
  from assms obtain b n where m: "matches NL_RUN alnum (prev_after b None s) (drop b s) n"
    unfolding occurs_in_def by blast
  let ?p = "prev_after b None s" and ?r = "drop b s"
  from m obtain j cs where "drop j ?r = 10 # cs"
    unfolding NL_RUN_def matches_Rep by (auto simp: matches_chr)
  then have "10 \<in> set (drop j ?r)" by simp
  then have "10 \<in> set ?r" by (rule in_set_dropD)
  then show ?thesis by (rule in_set_dropD)
qed

lemma ws_run_occurs:
  assumes "occurs_in WS_RUN alnum s"
  shows "\<not> no_ws_pair s"
proof
  assume np: "no_ws_pair s"
  from assms obtain b n where m: "matches WS_RUN alnum (prev_after b None s) (drop b s) n"
    unfolding occurs_in_def by blast
  let ?r = "drop b s"
  from m obtain j where j: "2 \<le> j" "j \<le> length ?r" "\<forall>d \<in> set (take j ?r). in_class alnum [Space] d"
    unfolding WS_RUN_def matches_Rep by auto
  from j(1,2) obtain x y zs where r: "?r = x # y # zs"
    by (cases ?r; cases "tl ?r") auto
  from j(1) obtain j' where "j = Suc (Suc j')" by (metis Suc_le_D numeral_2_eq_2 Suc_le_mono)
  with j(3) r have "is_space x \<and> is_space y" by simp
  moreover from np have "no_ws_pair ?r" by (rule no_ws_pair_drop)
  ultimately show False using r by (simp add: no_ws_pair_Cons)
qed

lemma normalize_fixed_point:
  assumes t: "trimmed t" and nl: "10 \<notin> set t" and ws: "no_ws_pair t"
    and fo: "\<not> startswith t (of_str ''```'')" and fc: "\<not> endswith t (of_str ''```'')"
    and bt: "\<not> (startswith t (of_str ''`'') \<and> endswith t (of_str ''`''))"
  shows "normalize_one_line alnum t = t"
proof (cases "t = []")
  case True
  then show ?thesis by (simp add: normalize_one_line_def)
next
  case False
  from t have 1: "strip t = t" by (rule strip_trimmed)
  from fo fence_open_occurs have "\<not> occurs_in FENCE_OPEN alnum t" by blast
  then have 2: "re_sub FENCE_OPEN alnum [] t = t" by (rule re_sub_no_occurrence)
  from nl fc fence_close_occurs have "\<not> occurs_in FENCE_CLOSE alnum t" by blast
  then have 3: "re_sub FENCE_CLOSE alnum [] t = t" by (rule re_sub_no_occurrence)
  from bt have 4: "unwrap_backticks t = t" by (auto simp: unwrap_backticks_def)
  from nl nl_run_occurs have "\<not> occurs_in NL_RUN alnum t" by blast
  then have 5: "re_sub NL_RUN alnum [32] t = t" by (rule re_sub_no_occurrence)
  from ws ws_run_occurs have "\<not> occurs_in WS_RUN alnum t" by blast
  then have 6: "re_sub WS_RUN alnum [32] t = t" by (rule re_sub_no_occurrence)
  from False show ?thesis
    by (simp add: normalize_one_line_def Let_def of_str_space 1 2 3 4 5 6)
qed

lemma normalize_idempotent_aux:
  assumes "\<not> startswith (normalize_one_line alnum s) (of_str ''```'')"
    and "\<not> endswith (normalize_one_line alnum s) (of_str ''```'')"
    and "\<not> (startswith (normalize_one_line alnum s) (of_str ''`'') \<and>
             endswith (normalize_one_line alnum s) (of_str ''`''))"
  shows "normalize_one_line alnum (normalize_one_line alnum s) = normalize_one_line alnum s"
  using normalize_normal_form [of alnum s] normalize_no_newline [of alnum s] assms
  by (intro normalize_fixed_point) simp_all

lemma length_strip: "length (strip s) \<le> length s"
proof -
  have "length (strip s) \<le> length (dropWhile is_space s)"
    unfolding strip_def using length_dropWhile_le [of is_space "rev (dropWhile is_space s)"] by simp
  also have "\<dots> \<le> length s" by (rule length_dropWhile_le)
  finally show ?thesis .
qed

lemma length_unwrap_backticks: "length (unwrap_backticks s) \<le> length s"
proof -
  have "length (strip (slice_1_m1 s)) \<le> length (slice_1_m1 s)" by (rule length_strip)
  also have "\<dots> \<le> length s" by (simp add: slice_1_m1_def)
  finally show ?thesis by (simp add: unwrap_backticks_def)
qed

lemma length_sub_from:
  assumes "length repl \<le> 1" and "repl = [] \<or> never_empty pat alnum"
  shows "length (sub_from pat alnum repl prev rest) \<le> length rest"
proof (induction "length rest" arbitrary: prev rest rule: less_induct)
  case less
  show ?case
  proof (cases rule: sub_from_cases [where rest = rest and pat = pat and alnum = alnum and prev = prev])
    case Nil
    show ?thesis
    proof (cases "re_match pat alnum prev []")
      case None
      with Nil show ?thesis by (simp add: sub_from_Nil)
    next
      case (Some n)
      with re_match_le [OF Some] have "re_match pat alnum prev [] = Some 0" by simp
      with assms(2) have "repl = []" by (auto simp: never_empty_def)
      with Nil Some show ?thesis by (simp add: sub_from_Nil)
    qed
  next
    case (no_match c cs)
    with less [of cs "Some c"] show ?thesis by (simp add: sub_from_no_match)
  next
    case (empty_match c cs)
    with assms(2) have "repl = []" by (auto simp: never_empty_def)
    with empty_match less [of cs "Some c"] show ?thesis by (simp add: sub_from_empty_match)
  next
    case (match n)
    then have "length (drop (Suc n) rest) < length rest" by simp
    from less [OF this, of "Some (rest ! n)"] match assms(1) show ?thesis
      by (simp add: sub_from_match)
  qed
qed

lemma length_sub_from_less:
  assumes "never_empty pat alnum"
  shows "search_from pat alnum prev rest \<noteq> None \<Longrightarrow>
    length (sub_from pat alnum [] prev rest) < length rest"
proof (induction rest arbitrary: prev)
  case Nil
  then obtain n where n: "re_match pat alnum prev [] = Some n" by (auto split: option.splits)
  with re_match_le [OF n] assms show ?case by (simp add: never_empty_def)
next
  case (Cons c cs)
  show ?case
  proof (cases "re_match pat alnum prev (c # cs)")
    case None
    with Cons.prems have "search_from pat alnum (Some c) cs \<noteq> None" by (auto split: option.splits)
    from Cons.IH [OF this] None show ?thesis by (simp add: sub_from_no_match)
  next
    case (Some n)
    with assms obtain m where "n = Suc m" by (cases n) (auto simp: never_empty_def)
    with Some have m: "re_match pat alnum prev (c # cs) = Some (Suc m)" by simp
    from re_match_le [OF m] have "Suc m \<le> length (c # cs)" .
    moreover have "length (sub_from pat alnum [] (Some ((c # cs) ! m)) (drop (Suc m) (c # cs)))
        \<le> length (drop (Suc m) (c # cs))"
      by (rule length_sub_from) simp_all
    ultimately show ?thesis unfolding sub_from_match [OF m] by simp
  qed
qed

lemma length_re_sub_less:
  "never_empty pat alnum \<Longrightarrow> occurs_in pat alnum s \<Longrightarrow> length (re_sub pat alnum [] s) < length s"
  using re_search_iff_occurs [of pat alnum s] length_sub_from_less [of pat alnum None s]
  by (simp add: re_sub_def re_search_def)

lemma never_empty_fence_open: "never_empty FENCE_OPEN alnum"
  unfolding never_empty_def
proof (intro allI notI)
  fix prev rest
  assume "re_match FENCE_OPEN alnum prev rest = Some 0"
  then have "matches FENCE_OPEN alnum prev rest 0" by (rule re_match_sound)
  then show False unfolding FENCE_OPEN_def lits_fence matches_Bol by (simp add: matches_chr)
qed

lemma never_empty_fence_close: "never_empty FENCE_CLOSE alnum"
  unfolding never_empty_def
proof (intro allI notI)
  fix prev rest
  assume "re_match FENCE_CLOSE alnum prev rest = Some 0"
  then have "matches FENCE_CLOSE alnum prev rest 0" by (rule re_match_sound)
  then show False unfolding FENCE_CLOSE_def lits_fence matches_Rep by (auto simp: matches_chr)
qed

lemma never_empty_nl_run: "never_empty NL_RUN alnum"
  unfolding never_empty_def using nl_match_pos by fastforce

lemma never_empty_ws_run: "never_empty WS_RUN alnum"
  unfolding never_empty_def by (auto simp: ws_match)

lemma fence_open_occurs_iff: "occurs_in FENCE_OPEN alnum s \<longleftrightarrow> startswith s (of_str ''```'')"
proof
  assume "occurs_in FENCE_OPEN alnum s"
  then show "startswith s (of_str ''```'')" by (rule fence_open_occurs)
next
  assume "startswith s (of_str ''```'')"
  then have "take 3 s = [96, 96, 96]" by (simp add: startswith_def of_str_def numeral_3_eq_3)
  then obtain cs where s: "s = 96 # 96 # 96 # cs"
    by (metis append_Cons append_Nil append_take_drop_id)
  have "matches [Rep [Word, Lit 45] 0 None, Rep [Lit 10] 0 (Some 1)] alnum (Some 96) cs 0"
    unfolding matches_Rep by simp
  then have "matches FENCE_OPEN alnum (prev_after 0 None s) (drop 0 s) 3"
    unfolding FENCE_OPEN_def lits_fence matches_Bol s by (simp add: matches_chr)
  then show "occurs_in FENCE_OPEN alnum s" unfolding occurs_in_def by blast
qed

lemma fence_close_occurs_if: 
  assumes "endswith s (of_str ''```'')"
  shows "occurs_in FENCE_CLOSE alnum s"
proof -
  let ?b = "length s - 3"
  from assms have d: "drop ?b s = [96, 96, 96]" by (simp add: endswith_def of_str_def numeral_3_eq_3)
  have "matches [Eol] alnum (Some 96) [] 0" by (simp add: matches_Eol at_eol_def)
  then have "matches ([chr 96, chr 96, chr 96] @ [Eol]) alnum (prev_after ?b None s) [96, 96, 96] 3"
    by (simp add: matches_chr)
  then have "matches FENCE_CLOSE alnum (prev_after ?b None s) (drop ?b s) 3"
    unfolding FENCE_CLOSE_def lits_fence matches_Rep d by (intro exI [of _ 0]) simp
  moreover have "?b \<le> length s" by simp
  ultimately show ?thesis unfolding occurs_in_def by blast
qed

lemma normalize_shrinks:
  assumes t: "trimmed t" and nl: "10 \<notin> set t" and f: "backtick_framed t"
  shows "length (normalize_one_line alnum t) < length t"
proof -
  define x2 where "x2 = re_sub FENCE_OPEN alnum [] t"
  define x3 where "x3 = re_sub FENCE_CLOSE alnum [] x2"
  define x4 where "x4 = unwrap_backticks x3"
  define x5 where "x5 = re_sub NL_RUN alnum [32] x4"
  define x6 where "x6 = re_sub WS_RUN alnum [32] x5"
  from f have ne: "t \<noteq> []"
    by (auto simp: backtick_framed_def startswith_def endswith_def of_str_def)
  from t have "strip t = t" by (rule strip_trimmed)
  with ne have n: "normalize_one_line alnum t = strip x6"
    by (simp add: normalize_one_line_def Let_def of_str_space x2_def x3_def x4_def x5_def x6_def)
  have l2: "length x2 \<le> length t" unfolding x2_def re_sub_def by (rule length_sub_from) simp_all
  have l3: "length x3 \<le> length x2" unfolding x3_def re_sub_def by (rule length_sub_from) simp_all
  have l4: "length x4 \<le> length x3" unfolding x4_def by (rule length_unwrap_backticks)
  have l5: "length x5 \<le> length x4" unfolding x5_def re_sub_def
    by (rule length_sub_from) (simp_all add: never_empty_nl_run)
  have l6: "length x6 \<le> length x5" unfolding x6_def re_sub_def
    by (rule length_sub_from) (simp_all add: never_empty_ws_run)
  have l7: "length (strip x6) \<le> length x6" by (rule length_strip)
  have "length x4 < length t"
  proof (cases "startswith t (of_str ''```'')")
    case True
    then have "occurs_in FENCE_OPEN alnum t" by (simp add: fence_open_occurs_iff)
    then have "length x2 < length t" unfolding x2_def
      by (intro length_re_sub_less never_empty_fence_open)
    with l3 l4 show ?thesis by simp
  next
    case False
    then have "\<not> occurs_in FENCE_OPEN alnum t" by (simp add: fence_open_occurs_iff)
    then have x2: "x2 = t" unfolding x2_def by (rule re_sub_no_occurrence)
    show ?thesis
    proof (cases "endswith t (of_str ''```'')")
      case True
      then have "occurs_in FENCE_CLOSE alnum t" by (rule fence_close_occurs_if)
      then have "length x3 < length t" unfolding x3_def x2
        by (intro length_re_sub_less never_empty_fence_close)
      with l4 show ?thesis by simp
    next
      case e: False
      with nl fence_close_occurs have "\<not> occurs_in FENCE_CLOSE alnum t" by blast
      then have x3: "x3 = t" unfolding x3_def x2 by (rule re_sub_no_occurrence)
      from f False e have "startswith t (of_str ''`'') \<and> endswith t (of_str ''`'')"
        by (simp add: backtick_framed_def)
      then have "x4 = strip (slice_1_m1 t)" by (simp add: x4_def x3 unwrap_backticks_def)
      moreover have "length (strip (slice_1_m1 t)) \<le> length (slice_1_m1 t)" by (rule length_strip)
      moreover from ne have "length (slice_1_m1 t) < length t" by (simp add: slice_1_m1_def)
      ultimately show ?thesis by simp
    qed
  qed
  with l5 l6 l7 n show ?thesis by simp
qed

text \<open>
  C4 (as amended): the normalizer is not idempotent; applying it a second time changes
  nothing exactly when the first result neither starts with a code fence, nor ends with
  one, nor both starts and ends with a backtick.
\<close>

theorem normalize_idempotent_iff:
  "normalize_one_line alnum (normalize_one_line alnum s) = normalize_one_line alnum s \<longleftrightarrow>
     \<not> backtick_framed (normalize_one_line alnum s)"
proof
  assume eq: "normalize_one_line alnum (normalize_one_line alnum s) = normalize_one_line alnum s"
  show "\<not> backtick_framed (normalize_one_line alnum s)"
  proof
    assume "backtick_framed (normalize_one_line alnum s)"
    with normalize_normal_form [of alnum s] normalize_no_newline [of alnum s]
    have "length (normalize_one_line alnum (normalize_one_line alnum s))
        < length (normalize_one_line alnum s)"
      by (intro normalize_shrinks) simp_all
    with eq show False by simp
  qed
next
  assume "\<not> backtick_framed (normalize_one_line alnum s)"
  then show "normalize_one_line alnum (normalize_one_line alnum s) = normalize_one_line alnum s"
    by (intro normalize_idempotent_aux) (simp_all add: backtick_framed_def)
qed

theorem normalize_idempotent_witness:
  "\<not> backtick_framed
       (normalize_one_line ascii_alnum (of_str ''```sh'' @ [10] @ of_str ''ls -la'' @ [10] @ of_str ''```'')) \<and>
   normalize_one_line ascii_alnum
       (normalize_one_line ascii_alnum (of_str ''```sh'' @ [10] @ of_str ''ls -la'' @ [10] @ of_str ''```''))
     = normalize_one_line ascii_alnum (of_str ''```sh'' @ [10] @ of_str ''ls -la'' @ [10] @ of_str ''```'')"
proof -
  let ?s = "of_str ''```sh'' @ [10] @ of_str ''ls -la'' @ [10] @ of_str ''```''"
  have e: "normalize_one_line ascii_alnum ?s = of_str ''ls -la''"
    by (simp add: eval_defs)
  have "\<not> backtick_framed (of_str ''ls -la'')"
    by (simp add: backtick_framed_def startswith_def endswith_def of_str_def)
  with e have b: "\<not> backtick_framed (normalize_one_line ascii_alnum ?s)" by simp
  with normalize_idempotent_iff [of ascii_alnum ?s] show ?thesis by blast
qed

text \<open>
  C4 as stated fails: two backticks on each side lose one layer at each application.
\<close>

theorem normalize_not_idempotent:
  "normalize_one_line ascii_alnum (normalize_one_line ascii_alnum (of_str ''``a``''))
     \<noteq> normalize_one_line ascii_alnum (of_str ''``a``'')"
proof -
  have 1: "normalize_one_line ascii_alnum (of_str ''``a``'') = of_str ''`a`''"
    by (simp add: eval_defs)
  have 2: "normalize_one_line ascii_alnum (of_str ''`a`'') = of_str ''a''"
    by (simp add: eval_defs)
  show ?thesis unfolding 1 2 by (simp add: of_str_def)
qed

lemma slice_wrapped: "slice_1_m1 (c # m @ [d]) = m"
  by (simp add: slice_1_m1_def)

lemma unwrap_wrapped: "unwrap_backticks (96 # m @ [96]) = strip m"
  by (simp add: unwrap_backticks_def startswith_def endswith_def of_str_def slice_1_m1_def)

lemma normalize_wrapped:
  assumes nl: "10 \<notin> set m" and ws: "no_ws_pair m"
    and fo: "\<not> startswith (96 # m @ [96]) (of_str ''```'')"
    and fc: "\<not> endswith (96 # m @ [96]) (of_str ''```'')"
  shows "normalize_one_line alnum (96 # m @ [96]) = strip m"
proof -
  let ?t = "96 # m @ [96]"
  have "trimmed ?t" by (simp add: trimmed_def is_space_def)
  then have 1: "strip ?t = ?t" by (rule strip_trimmed)
  from nl have nlt: "10 \<notin> set ?t" by simp
  from fo fence_open_occurs have "\<not> occurs_in FENCE_OPEN alnum ?t" by blast
  then have 2: "re_sub FENCE_OPEN alnum [] ?t = ?t" by (rule re_sub_no_occurrence)
  from nlt fc fence_close_occurs have "\<not> occurs_in FENCE_CLOSE alnum ?t" by blast
  then have 3: "re_sub FENCE_CLOSE alnum [] ?t = ?t" by (rule re_sub_no_occurrence)
  have 4: "unwrap_backticks ?t = strip m" by (rule unwrap_wrapped)
  from nl set_strip [of m] have "10 \<notin> set (strip m)" by blast
  with nl_run_occurs have "\<not> occurs_in NL_RUN alnum (strip m)" by blast
  then have 5: "re_sub NL_RUN alnum [32] (strip m) = strip m" by (rule re_sub_no_occurrence)
  from ws have "no_ws_pair (strip m)" by (rule no_ws_pair_strip)
  with ws_run_occurs have "\<not> occurs_in WS_RUN alnum (strip m)" by blast
  then have 6: "re_sub WS_RUN alnum [32] (strip m) = strip m" by (rule re_sub_no_occurrence)
  have 7: "strip (strip m) = strip m" using trimmed_strip by (rule strip_trimmed)
  show ?thesis
    by (simp add: normalize_one_line_def Let_def of_str_space 1 2 3 4 5 6 7 del: append.simps)
qed

lemma normalize_lone_backtick: "normalize_one_line alnum [96] = []"
  by (simp add: eval_defs)

text \<open>
  C9 (as amended): whenever the trimmed string, free of code fences, starts with a
  backtick and ends with a backtick, the normalizer strips exactly these two characters and
  trims the rest, whether or not the two backticks belong together; a lone backtick is
  removed altogether; and a string that does not both start and end with a backtick
  (already trimmed, free of newlines, of white-space runs and of code fences) is returned
  as it is, its backticks included.
\<close>

theorem normalize_backticks:
  "(10 \<notin> set m \<and> no_ws_pair m \<and> \<not> startswith (96 # m @ [96]) (of_str ''```'') \<and>
      \<not> endswith (96 # m @ [96]) (of_str ''```'')
      \<longrightarrow> normalize_one_line alnum (96 # m @ [96]) = strip m) \<and>
   normalize_one_line alnum [96] = [] \<and>
   (trimmed t \<and> 10 \<notin> set t \<and> no_ws_pair t \<and> \<not> startswith t (of_str ''```'') \<and>
      \<not> endswith t (of_str ''```'') \<and> \<not> (startswith t (of_str ''`'') \<and> endswith t (of_str ''`''))
      \<longrightarrow> normalize_one_line alnum t = t)"
  using normalize_wrapped [of m alnum] normalize_fixed_point [of t alnum] normalize_lone_backtick [of alnum]
  by blast

theorem normalize_backticks_witness:
  "normalize_one_line ascii_alnum (of_str ''`a` `b`'') = of_str ''a` `b'' \<and>
   normalize_one_line ascii_alnum (of_str ''``ls``'') = of_str ''`ls`'' \<and>
   normalize_one_line ascii_alnum (of_str ''echo `date'') = of_str ''echo `date''"
proof -
  have a: "of_str ''`a` `b`'' = 96 # of_str ''a` `b'' @ [96]"
    and b: "of_str ''``ls``'' = 96 # of_str ''`ls`'' @ [96]"
    by (simp_all add: of_str_def)
  have s: "strip (of_str ''a` `b'') = of_str ''a` `b''" "strip (of_str ''`ls`'') = of_str ''`ls`''"
    by (simp_all add: strip_def of_str_def is_space_def)
  have h1: "10 \<notin> set (of_str ''a` `b'') \<and> no_ws_pair (of_str ''a` `b'') \<and>
      \<not> startswith (96 # of_str ''a` `b'' @ [96]) (of_str ''```'') \<and>
      \<not> endswith (96 # of_str ''a` `b'' @ [96]) (of_str ''```'')"
    by (simp add: of_str_def no_ws_pair_def is_space_def startswith_def endswith_def)
  have h2: "10 \<notin> set (of_str ''`ls`'') \<and> no_ws_pair (of_str ''`ls`'') \<and>
      \<not> startswith (96 # of_str ''`ls`'' @ [96]) (of_str ''```'') \<and>
      \<not> endswith (96 # of_str ''`ls`'' @ [96]) (of_str ''```'')"
    by (simp add: of_str_def no_ws_pair_def is_space_def startswith_def endswith_def)
  have h3: "trimmed (of_str ''echo `date'') \<and> 10 \<notin> set (of_str ''echo `date'') \<and>
      no_ws_pair (of_str ''echo `date'') \<and> \<not> startswith (of_str ''echo `date'') (of_str ''```'') \<and>
      \<not> endswith (of_str ''echo `date'') (of_str ''```'') \<and>
      \<not> (startswith (of_str ''echo `date'') (of_str ''`'') \<and> endswith (of_str ''echo `date'') (of_str ''`''))"
    by (simp add: of_str_def no_ws_pair_def is_space_def startswith_def endswith_def trimmed_def)
  from normalize_backticks [of "of_str ''a` `b''" ascii_alnum "of_str ''echo `date''"] h1 h3
  have "normalize_one_line ascii_alnum (96 # of_str ''a` `b'' @ [96]) = strip (of_str ''a` `b'')"
    and "normalize_one_line ascii_alnum (of_str ''echo `date'') = of_str ''echo `date''"
    by blast+
  moreover from normalize_backticks [of "of_str ''`ls`''" ascii_alnum "[]"] h2
  have "normalize_one_line ascii_alnum (96 # of_str ''`ls`'' @ [96]) = strip (of_str ''`ls`'')"
    by blast
  ultimately show ?thesis by (simp only: a b s simp_thms)
qed

text \<open>
  C9 as stated fails: of two separate inline spans the outer backticks are stripped, and a
  lone backtick is removed.
\<close>

theorem normalize_strips_unpaired_backticks:
  "normalize_one_line ascii_alnum (of_str ''`a` `b`'') = of_str ''a` `b'' \<and>
   normalize_one_line ascii_alnum (of_str ''`'') = []"
  by (simp add: eval_defs)

section \<open>Properties of the session controller\<close>

lemma suggest_generates:
  assumes "generates env model (SYSTEM_TEMPLATE task) cmd"
  shows "suggest env model task w =
     (Return cmd, w\<lparr>asked := asked w @ [(model, SYSTEM_TEMPLATE task)]\<rparr>)"
  using assms normalize_no_newline [of "uni_alnum env"]
  by (auto simp: generates_def suggest_def call_ollama_def Let_def)

lemma refine_generates:
  assumes "generates env model
      (REFINE_TEMPLATE task prev (if strip problem = [] then of_str ''no details'' else strip problem)) cmd"
  shows "refine env model task prev problem w =
     (Return cmd, w\<lparr>asked := asked w @ [(model,
        REFINE_TEMPLATE task prev (if strip problem = [] then of_str ''no details'' else strip problem))]\<rparr>)"
  using assms normalize_no_newline [of "uni_alnum env"]
  by (auto simp: generates_def refine_def call_ollama_def Let_def)

lemma suggest_exit_2:
  "fst (suggest env model task w) = SysExit 2 \<longleftrightarrow>
     (\<exists>raw. ollama env model (SYSTEM_TEMPLATE task) = Some raw \<and>
            normalize_one_line (uni_alnum env) (strip raw) = [])"
  using normalize_no_newline [of "uni_alnum env"]
  by (cases "ollama env model (SYSTEM_TEMPLATE task)")
     (auto simp: suggest_def call_ollama_def Let_def)

lemma refine_exit_2:
  "fst (refine env model task prev problem w) = SysExit 2 \<longleftrightarrow>
     (\<exists>raw. ollama env model
              (REFINE_TEMPLATE task prev
                 (if strip problem = [] then of_str ''no details'' else strip problem)) = Some raw \<and>
            normalize_one_line (uni_alnum env) (strip raw) = [])"
  using normalize_no_newline [of "uni_alnum env"]
  by (cases "ollama env model
              (REFINE_TEMPLATE task prev
                 (if strip problem = [] then of_str ''no details'' else strip problem))")
     (auto simp: refine_def call_ollama_def Let_def)

text \<open>
  C10: \<^verbatim>\<open>suggest\<close> and \<^verbatim>\<open>refine\<close> end with exit status 2 exactly when the model
  answered and its normalized answer is the empty string; the normalized answer never
  contains a newline, so the second half of the test \<^verbatim>\<open>not cmd or "\n" in cmd\<close> never
  decides.
\<close>

theorem empty_or_multiline_only_when_empty:
  "(fst (suggest env model task w) = SysExit 2 \<longleftrightarrow>
      (\<exists>raw. ollama env model (SYSTEM_TEMPLATE task) = Some raw \<and>
             normalize_one_line (uni_alnum env) (strip raw) = [])) \<and>
   (fst (refine env model task prev problem w) = SysExit 2 \<longleftrightarrow>
      (\<exists>raw. ollama env model
               (REFINE_TEMPLATE task prev
                  (if strip problem = [] then of_str ''no details'' else strip problem)) = Some raw \<and>
             normalize_one_line (uni_alnum env) (strip raw) = [])) \<and>
   (\<forall>raw. 10 \<notin> set (normalize_one_line (uni_alnum env) raw))"
  using suggest_exit_2 [of env model task w] refine_exit_2 [of env model task prev problem w]
    normalize_no_newline [of "uni_alnum env"]
  by blast

theorem empty_or_multiline_witness:
  "fst (suggest (demo_env (of_str ''```'') \<lparr>c_stdout = [], c_stderr = [], returncode = 0\<rparr> True)
          (of_str ''mistral'') (of_str ''list files'') (demo_world NoFile [])) = SysExit 2"
proof -
  have "normalize_one_line ascii_alnum (strip (of_str ''```'')) = []"
    by (simp add: eval_defs)
  then show ?thesis
    using empty_or_multiline_only_when_empty
      [of "demo_env (of_str ''```'') \<lparr>c_stdout = [], c_stderr = [], returncode = 0\<rparr> True"
          "of_str ''mistral''" "of_str ''list files''" "demo_world NoFile []"]
    by (simp add: demo_env_def)
qed

text \<open>
  C7: in refine mode with \<^verbatim>\<open>--use-last\<close>, when the loaded state has no task or no
  command (the key is missing or its value is empty; so also when there is no state file),
  the invocation prints the error, ends with exit status 1 and leaves the state file and
  the history file as they were.
\<close>

theorem refine_use_last_without_state:
  assumes "args_mode args = Refine" and "args_use_last args"
    and "st_task (load_state w) = None \<or> st_task (load_state w) = Some [] \<or>
         st_cmd (load_state w) = None \<or> st_cmd (load_state w) = Some []"
  shows "main env args w = (SysExit 1, w\<lparr>stderr := stderr w @ [ErrNoPreviousState]\<rparr>) \<and>
         exit_status (fst (main env args w)) = 1 \<and>
         state_file (snd (main env args w)) = state_file w \<and>
         hist_file (snd (main env args w)) = hist_file w"
proof -
  from assms have "main env args w = (SysExit 1, warn ErrNoPreviousState w)"
    by (cases "st_task (load_state w)"; cases "st_cmd (load_state w)")
       (auto simp: main_def refine_mode_def Let_def)
  then show ?thesis by (simp add: warn_def)
qed

theorem refine_use_last_without_state_witness:
  "main (demo_env (of_str ''ls'') \<lparr>c_stdout = [], c_stderr = [], returncode = 0\<rparr> True)
        (demo_args Refine [] True) (demo_world NoFile [])
     = (SysExit 1, (demo_world NoFile [])\<lparr>stderr := [ErrNoPreviousState]\<rparr>) \<and>
   state_file (snd (main (demo_env (of_str ''ls'') \<lparr>c_stdout = [], c_stderr = [], returncode = 0\<rparr> True)
        (demo_args Refine [] True) (demo_world NoFile []))) = NoFile"
  using refine_use_last_without_state
    [of "demo_args Refine [] True" "demo_world NoFile []"
        "demo_env (of_str ''ls'') \<lparr>c_stdout = [], c_stderr = [], returncode = 0\<rparr> True"]
  by (simp add: demo_args_def demo_world_def load_state_def empty_state_def)

lemma refine_asked:
  "asked (snd (refine env model task prev problem w)) = asked w @ [(model,
      REFINE_TEMPLATE task prev (if strip problem = [] then of_str ''no details'' else strip problem))]"
  by (cases "ollama env model
        (REFINE_TEMPLATE task prev (if strip problem = [] then of_str ''no details'' else strip problem))")
     (auto simp: refine_def call_ollama_def Let_def warn_def)

lemma refine_stderr:
  "x \<in> set (stderr (snd (refine env model task prev problem w))) \<Longrightarrow>
     x \<in> set (stderr w) \<or> x = ErrOllamaFailed \<or> x = ErrEmptyRefine"
  by (cases "ollama env model
        (REFINE_TEMPLATE task prev (if strip problem = [] then of_str ''no details'' else strip problem))")
     (auto simp: refine_def call_ollama_def Let_def warn_def split: if_splits)

text \<open>The end of a suggest or refine invocation: history, state, the command printed.\<close>

lemma finish_frame:
  "asked (snd (and_then (log_history env args task cmd w) (\<lambda>_ w.
            and_then (save_state env task cmd le ec w) (\<lambda>_ w. (r, emit x w))))) = asked w \<and>
   stderr (snd (and_then (log_history env args task cmd w) (\<lambda>_ w.
            and_then (save_state env task cmd le ec w) (\<lambda>_ w. (r, emit x w))))) = stderr w"
  by (simp add: log_history_def save_history_def save_state_def Let_def emit_def)

lemma refine_then_finish:
  "asked (snd (and_then (refine env model task prev problem w) (\<lambda>cmd w.
            and_then (log_history env args task cmd w) (\<lambda>_ w.
            and_then (save_state env task cmd None None w) (\<lambda>_ w.
            (Return (), emit (Line cmd) w))))))
     = asked (snd (refine env model task prev problem w)) \<and>
   stderr (snd (and_then (refine env model task prev problem w) (\<lambda>cmd w.
            and_then (log_history env args task cmd w) (\<lambda>_ w.
            and_then (save_state env task cmd None None w) (\<lambda>_ w.
            (Return (), emit (Line cmd) w))))))
     = stderr (snd (refine env model task prev problem w))"
proof (cases "refine env model task prev problem w")
  case (Pair r w1)
  then show ?thesis by (cases r) (simp_all add: finish_frame)
qed

text \<open>
  C5 (as amended): refine mode without \<^verbatim>\<open>--use-last\<close> fails with the usage error and
  exit status 1 exactly when no task text is given on the command line, whatever the
  stored state; with task text it builds the refine prompt from the task, the stored
  command (the empty string when there is none) and \<^verbatim>\<open>--why\<close>, and sends it to the
  model.
\<close>

theorem refine_without_use_last:
  assumes "args_mode args = Refine" and "\<not> args_use_last args"
  shows "(args_task args = [] \<longrightarrow>
            main env args w = (SysExit 1, w\<lparr>stderr := stderr w @ [ErrTaskOrUseLast]\<rparr>)) \<and>
         (args_task args \<noteq> [] \<longrightarrow>
            asked (snd (main env args w)) =
              asked w @ [(args_model args,
                REFINE_TEMPLATE (join_space (args_task args))
                  (case st_cmd (load_state w) of None \<Rightarrow> [] | Some c \<Rightarrow> c)
                  (if strip (args_why args) = [] then of_str ''no details''
                   else strip (args_why args)))] \<and>
            (ErrTaskOrUseLast \<in> set (stderr (snd (main env args w)))
               \<longrightarrow> ErrTaskOrUseLast \<in> set (stderr w)))"
proof (intro conjI impI)
  assume "args_task args = []"
  with assms show "main env args w = (SysExit 1, w\<lparr>stderr := stderr w @ [ErrTaskOrUseLast]\<rparr>)"
    by (simp add: main_def refine_mode_def warn_def)
next
  let ?prev = "case st_cmd (load_state w) of None \<Rightarrow> [] | Some c \<Rightarrow> c"
  let ?w = "if ?prev = [] then warn WarnNoPreviousCommand w else w"
  let ?task = "join_space (args_task args)"
  assume t: "args_task args \<noteq> []"
  with assms have m: "main env args w =
      and_then (refine env (args_model args) ?task ?prev (args_why args) ?w) (\<lambda>cmd w.
        and_then (log_history env args ?task cmd w) (\<lambda>_ w.
        and_then (save_state env ?task cmd None None w) (\<lambda>_ w.
        (Return (), emit (Line cmd) w))))"
    by (simp add: main_def refine_mode_def Let_def)
  have a: "asked ?w = asked w" by (simp add: warn_def)
  show "asked (snd (main env args w)) =
      asked w @ [(args_model args, REFINE_TEMPLATE ?task ?prev
         (if strip (args_why args) = [] then of_str ''no details'' else strip (args_why args)))]"
    unfolding m by (simp only: refine_then_finish refine_asked a)
  assume "ErrTaskOrUseLast \<in> set (stderr (snd (main env args w)))"
  then have "ErrTaskOrUseLast \<in> set (stderr (snd (refine env (args_model args) ?task ?prev (args_why args) ?w)))"
    unfolding m by (simp only: refine_then_finish)
  then have "ErrTaskOrUseLast \<in> set (stderr ?w)"
    by (auto dest: refine_stderr)
  then show "ErrTaskOrUseLast \<in> set (stderr w)"
    by (auto simp: warn_def split: if_splits)
qed

theorem refine_without_use_last_witness:
  "main (demo_env (of_str ''ls -l'') \<lparr>c_stdout = [], c_stderr = [], returncode = 0\<rparr> True)
        (demo_args Refine [] False) (demo_world NoFile [])
     = (SysExit 1, (demo_world NoFile [])\<lparr>stderr := [ErrTaskOrUseLast]\<rparr>) \<and>
   asked (snd (main (demo_env (of_str ''ls -l'') \<lparr>c_stdout = [], c_stderr = [], returncode = 0\<rparr> True)
        (demo_args Refine [of_str ''list'', of_str ''files''] False) (demo_world (Json demo_state) [])))
     = [(of_str ''mistral'',
         REFINE_TEMPLATE (of_str ''list files'') (of_str ''ls'') (of_str ''no details''))]"
  using refine_without_use_last
      [of "demo_args Refine [] False"
          "demo_env (of_str ''ls -l'') \<lparr>c_stdout = [], c_stderr = [], returncode = 0\<rparr> True"
          "demo_world NoFile []"]
    refine_without_use_last
      [of "demo_args Refine [of_str ''list'', of_str ''files''] False"
          "demo_env (of_str ''ls -l'') \<lparr>c_stdout = [], c_stderr = [], returncode = 0\<rparr> True"
          "demo_world (Json demo_state) []"]
  by (simp add: demo_args_def demo_world_def demo_state_def load_state_def strip_def of_str_def)

text \<open>
  C5 as stated fails: with a stored task and command but no task text, the invocation
  still ends with exit status 1 and sends no prompt.
\<close>

theorem refine_fails_despite_stored_state:
  "fst (main (demo_env (of_str ''ls -l'') \<lparr>c_stdout = [], c_stderr = [], returncode = 0\<rparr> True)
          (demo_args Refine [] False) (demo_world (Json demo_state) [])) = SysExit 1 \<and>
   asked (snd (main (demo_env (of_str ''ls -l'') \<lparr>c_stdout = [], c_stderr = [], returncode = 0\<rparr> True)
          (demo_args Refine [] False) (demo_world (Json demo_state) []))) = [] \<and>
   st_task (load_state (demo_world (Json demo_state) [])) = Some (of_str ''list files'') \<and>
   st_cmd (load_state (demo_world (Json demo_state) [])) = Some (of_str ''ls'')"
  by (simp add: main_def refine_mode_def demo_args_def demo_world_def demo_state_def
      load_state_def warn_def)

lemma run_mode_generates:
  assumes "args_task args \<noteq> []"
    and "generates env (args_model args) (SYSTEM_TEMPLATE (join_space (args_task args))) cmd"
  shows "run_mode env args w =
     and_then
       (confirm env (join_space (args_task args)) cmd
          (emit (Suggested cmd)
             (w\<lparr>asked := asked w @ [(args_model args, SYSTEM_TEMPLATE (join_space (args_task args)))]\<rparr>)))
       (\<lambda>_ w. execute env args (join_space (args_task args)) cmd w)"
  using assms by (simp add: run_mode_def Let_def suggest_generates)

lemma confirm_declined_dangerous:
  assumes "is_dangerous (uni_alnum env) cmd" and "stdin w = line # rest"
    and "strip line \<noteq> of_str ''YES''"
  shows "confirm env task cmd w =
     (SysExit 3,
      w\<lparr>stdout := stdout w @ [Prompt AskYES, Aborted],
        stderr := stderr w @ [WarnDangerous],
        stdin := rest,
        state_file := Json \<lparr>st_task = Some task, st_cmd = Some cmd, st_last_error = Some [],
          st_exit_code = Some NoCode, st_timestamp = Some (clock env (ticks w))\<rparr>,
        ticks := Suc (ticks w)\<rparr>)"
  using assms
  by (simp add: confirm_def py_input_def warn_def emit_def save_state_def Let_def)

lemma confirm_accepted:
  assumes "stdin w = line # rest" and "accepted env cmd line"
  shows "confirm env task cmd w =
     (Return (),
      w\<lparr>stdout := stdout w @ [Prompt (if is_dangerous (uni_alnum env) cmd then AskYES else AskRun)],
        stderr := stderr w @ (if is_dangerous (uni_alnum env) cmd then [WarnDangerous] else []),
        stdin := rest\<rparr>)"
  using assms
  by (auto simp: accepted_def confirm_def py_input_def warn_def emit_def Let_def)

lemma and_then_cases:
  obtains (Return) x w where "m = (Return x, w)" "and_then m f = f x w"
  | (Stop) "snd (and_then m f) = snd m"
      "(\<exists>n. fst m = SysExit n \<and> fst (and_then m f) = SysExit n) \<or>
       (\<exists>e. fst m = Uncaught e \<and> fst (and_then m f) = Uncaught e)"
proof (cases m)
  case (Pair r w)
  then show ?thesis using Return Stop by (cases r) auto
qed

lemma and_then_ran:
  assumes "x \<in> set (ran (snd m))"
    and "\<And>v w. x \<in> set (ran w) \<Longrightarrow> x \<in> set (ran (snd (f v w)))"
  shows "x \<in> set (ran (snd (and_then m f)))"
proof (cases rule: and_then_cases [of m f])
  case (Return v w)
  with assms show ?thesis by simp
next
  case Stop
  with assms show ?thesis by simp
qed

lemma save_state_ran: "x \<in> set (ran w) \<Longrightarrow> x \<in> set (ran (snd (save_state env task cmd le ec w)))"
  by (simp add: save_state_def Let_def)

lemma log_history_ran: "x \<in> set (ran w) \<Longrightarrow> x \<in> set (ran (snd (log_history env args task cmd w)))"
  by (simp add: log_history_def save_history_def Let_def)

lemma py_input_ran: "x \<in> set (ran w) \<Longrightarrow> x \<in> set (ran (snd (py_input p w)))"
  by (simp add: py_input_def emit_def split: list.splits)

lemma refine_ran: "x \<in> set (ran w) \<Longrightarrow> x \<in> set (ran (snd (refine env model task prev problem w)))"
  by (cases "ollama env model
        (REFINE_TEMPLATE task prev (if strip problem = [] then of_str ''no details'' else strip problem))")
     (auto simp: refine_def call_ollama_def Let_def warn_def)

lemma run_improved_ran:
  assumes "x \<in> set (ran w)"
  shows "x \<in> set (ran (snd (run_improved env args task cmd err w)))"
  unfolding run_improved_def
proof (rule and_then_ran, goal_cases)
  case 1
  from assms show ?case by (rule refine_ran)
next
  case (2 improved w1)
  show ?case
  proof (rule and_then_ran, goal_cases)
    case 1
    from 2 show ?case by (intro py_input_ran) (simp add: emit_def)
  next
    case (2 line w2)
    then show ?case
      by (auto simp: Let_def warn_def intro!: and_then_ran save_state_ran log_history_ran)
  qed
qed

lemma execute_ran: "(args_shell args, cmd) \<in> set (ran (snd (execute env args task cmd w)))"
proof -
  let ?w = "w\<lparr>ran := ran w @ [(args_shell args, cmd)]\<rparr>"
  have x: "(args_shell args, cmd) \<in> set (ran ?w)" by simp
  show ?thesis
  proof (cases "returncode (run_shell env (args_shell args) cmd) = 0")
    case True
    then show ?thesis unfolding execute_def Let_def
      by (auto simp: emit_def intro!: and_then_ran save_state_ran log_history_ran)
  next
    case False
    then show ?thesis unfolding execute_def Let_def
      by (auto simp: emit_def warn_def
          intro!: and_then_ran save_state_ran py_input_ran run_improved_ran)
  qed
qed

lemma execute_failed_declined:
  assumes "returncode (run_shell env (args_shell args) cmd) \<noteq> 0"
    and "stdin w = line # rest" and "\<not> says_yes env line"
  shows "execute env args task cmd w =
     (SysExit (returncode (run_shell env (args_shell args) cmd)),
      w\<lparr>ran := ran w @ [(args_shell args, cmd)],
        stderr := stderr w @ [CapturedStderr (c_stderr (run_shell env (args_shell args) cmd)),
                              ErrCommandFailed (returncode (run_shell env (args_shell args) cmd))],
        state_file := Json \<lparr>st_task = Some task, st_cmd = Some cmd,
          st_last_error = Some (strip (c_stderr (run_shell env (args_shell args) cmd))),
          st_exit_code = Some (Code (returncode (run_shell env (args_shell args) cmd))),
          st_timestamp = Some (clock env (ticks w))\<rparr>,
        ticks := Suc (ticks w),
        stdout := stdout w @ [Prompt AskRefine],
        stdin := rest\<rparr>)"
  using assms
  by (simp add: execute_def Let_def save_state_def warn_def emit_def py_input_def)

lemma history_fails:
  assumes "\<not> args_no_history args" and "\<not> hist_ok env"
  shows "and_then (log_history env args task cmd w) f = (Uncaught OSError, w\<lparr>ticks := Suc (ticks w)\<rparr>)"
  using assms by (simp add: log_history_def save_history_def Let_def)

lemma execute_ok_history_fails:
  assumes "returncode (run_shell env (args_shell args) cmd) = 0"
    and "\<not> args_no_history args" and "\<not> hist_ok env"
  shows "execute env args task cmd w =
     (Uncaught OSError,
      w\<lparr>ran := ran w @ [(args_shell args, cmd)],
        stdout := stdout w @ [CapturedStdout (c_stdout (run_shell env (args_shell args) cmd))],
        ticks := Suc (ticks w)\<rparr>)"
  using assms
  by (simp add: execute_def Let_def history_fails emit_def)

lemma main_run:
  assumes "args_mode args = Run" and "args_task args \<noteq> []"
    and "generates env (args_model args) (SYSTEM_TEMPLATE (join_space (args_task args))) cmd"
  shows "main env args w =
     and_then
       (confirm env (join_space (args_task args)) cmd
          (emit (Suggested cmd)
             (w\<lparr>asked := asked w @ [(args_model args, SYSTEM_TEMPLATE (join_space (args_task args)))]\<rparr>)))
       (\<lambda>_ w. execute env args (join_space (args_task args)) cmd w)"
  using assms by (simp add: main_def run_mode_generates)

text \<open>
  C1: in run mode, when the suggested command is classified as dangerous and a line of
  input is there, every answer other than \<^verbatim>\<open>YES\<close> (the answer is trimmed of surrounding
  white space, as the source does, and compared case-sensitively) aborts: nothing is run,
  the state is saved with the task and the rejected command, the history is not written,
  and the exit status is 3. The answer \<^verbatim>\<open>YES\<close> lets the command run.
\<close>

theorem run_dangerous_confirmation:
  assumes "args_mode args = Run" and "args_task args \<noteq> []"
    and "generates env (args_model args) (SYSTEM_TEMPLATE (join_space (args_task args))) cmd"
    and "is_dangerous (uni_alnum env) cmd"
    and "stdin w = line # rest"
  shows "(strip line \<noteq> of_str ''YES'' \<longrightarrow>
            fst (main env args w) = SysExit 3 \<and>
            exit_status (fst (main env args w)) = 3 \<and>
            ran (snd (main env args w)) = ran w \<and>
            hist_file (snd (main env args w)) = hist_file w \<and>
            state_file (snd (main env args w)) =
              Json \<lparr>st_task = Some (join_space (args_task args)), st_cmd = Some cmd,
                    st_last_error = Some [], st_exit_code = Some NoCode,
                    st_timestamp = Some (clock env (ticks w))\<rparr>) \<and>
         (strip line = of_str ''YES'' \<longrightarrow>
            (args_shell args, cmd) \<in> set (ran (snd (main env args w))))"
proof (intro conjI impI)
  let ?task = "join_space (args_task args)"
  let ?w = "emit (Suggested cmd) (w\<lparr>asked := asked w @ [(args_model args, SYSTEM_TEMPLATE ?task)]\<rparr>)"
  have m: "main env args w = and_then (confirm env ?task cmd ?w) (\<lambda>_ w. execute env args ?task cmd w)"
    using assms(1-3) by (rule main_run)
  have i: "stdin ?w = line # rest" using assms(5) by (simp add: emit_def)
  {
    assume "strip line \<noteq> of_str ''YES''"
    note c = confirm_declined_dangerous [OF assms(4) i this, of ?task]
    show "fst (main env args w) = SysExit 3" unfolding m c by simp
    then show "exit_status (fst (main env args w)) = 3" by simp
    show "ran (snd (main env args w)) = ran w" unfolding m c by (simp add: emit_def)
    show "hist_file (snd (main env args w)) = hist_file w" unfolding m c by (simp add: emit_def)
    show "state_file (snd (main env args w)) =
        Json \<lparr>st_task = Some ?task, st_cmd = Some cmd, st_last_error = Some [],
              st_exit_code = Some NoCode, st_timestamp = Some (clock env (ticks w))\<rparr>"
      unfolding m c by (simp add: emit_def)
  }
  {
    assume "strip line = of_str ''YES''"
    with assms(4) have "accepted env cmd line" by (simp add: accepted_def)
    note c = confirm_accepted [OF i this, of ?task]
    show "(args_shell args, cmd) \<in> set (ran (snd (main env args w)))"
      unfolding m c by (simp add: execute_ran)
  }
qed

text \<open>
  C6: in run mode, when the command was confirmed and run, its return code is not 0 and
  the user declined the refine offer, the captured standard error is written to the error
  stream, the saved state holds the trimmed standard error as \<^verbatim>\<open>last_error\<close> and the
  return code as \<^verbatim>\<open>exit_code\<close>, and \<^verbatim>\<open>sys.exit\<close> is called with the return code. For a
  command that exited with a nonzero exit code, a return code from 1 to 255, the process
  ends with that same exit code. In general the status of the process is the return code
  modulo 256, which differs from it only for a command that a signal ended.
\<close>

theorem run_failure_refine_declined:
  assumes "args_mode args = Run" and "args_task args \<noteq> []"
    and "generates env (args_model args) (SYSTEM_TEMPLATE (join_space (args_task args))) cmd"
    and "stdin w = line1 # line2 # rest"
    and "accepted env cmd line1"
    and "returncode (run_shell env (args_shell args) cmd) \<noteq> 0"
    and "\<not> says_yes env line2"
  shows "fst (main env args w) = SysExit (returncode (run_shell env (args_shell args) cmd)) \<and>
         (0 < returncode (run_shell env (args_shell args) cmd) \<and>
          returncode (run_shell env (args_shell args) cmd) < 256 \<longrightarrow>
            exit_status (fst (main env args w)) = returncode (run_shell env (args_shell args) cmd)) \<and>
         exit_status (fst (main env args w)) = returncode (run_shell env (args_shell args) cmd) mod 256 \<and>
         state_file (snd (main env args w)) =
           Json \<lparr>st_task = Some (join_space (args_task args)), st_cmd = Some cmd,
                 st_last_error = Some (strip (c_stderr (run_shell env (args_shell args) cmd))),
                 st_exit_code = Some (Code (returncode (run_shell env (args_shell args) cmd))),
                 st_timestamp = Some (clock env (ticks w))\<rparr> \<and>
         stderr (snd (main env args w)) =
           stderr w @ (if is_dangerous (uni_alnum env) cmd then [WarnDangerous] else []) @
             [CapturedStderr (c_stderr (run_shell env (args_shell args) cmd)),
              ErrCommandFailed (returncode (run_shell env (args_shell args) cmd))]"
proof -
  let ?task = "join_space (args_task args)"
  let ?w = "emit (Suggested cmd) (w\<lparr>asked := asked w @ [(args_model args, SYSTEM_TEMPLATE ?task)]\<rparr>)"
  let ?w1 = "?w\<lparr>stdout := stdout ?w @ [Prompt (if is_dangerous (uni_alnum env) cmd then AskYES else AskRun)],
        stderr := stderr ?w @ (if is_dangerous (uni_alnum env) cmd then [WarnDangerous] else []),
        stdin := line2 # rest\<rparr>"
  have m: "main env args w = and_then (confirm env ?task cmd ?w) (\<lambda>_ w. execute env args ?task cmd w)"
    using assms(1-3) by (rule main_run)
  have i: "stdin ?w = line1 # line2 # rest" using assms(4) by (simp add: emit_def)
  note c = confirm_accepted [OF i assms(5), of ?task]
  have j: "stdin ?w1 = line2 # rest" by simp
  note e = execute_failed_declined [OF assms(6) j assms(7), of ?task]
  have "main env args w = execute env args ?task cmd ?w1" unfolding m c by simp
  then show ?thesis unfolding e by (simp add: emit_def)
qed

subsection \<open>The two theorems at a concrete session\<close>

lemma demo_generates:
  assumes "normalize_one_line ascii_alnum (strip reply) = cmd" and "cmd \<noteq> []"
  shows "generates (demo_env reply result writable) model prompt cmd"
  using assms by (simp add: generates_def demo_env_def)

theorem run_dangerous_confirmation_witness:
  "fst (main (demo_env (of_str ''rm -rf /home'') \<lparr>c_stdout = [], c_stderr = [], returncode = 0\<rparr> True)
          (demo_args Run [of_str ''delete'', of_str ''everything''] False)
          (demo_world NoFile [of_str ''yes''])) = SysExit 3 \<and>
   ran (snd (main (demo_env (of_str ''rm -rf /home'') \<lparr>c_stdout = [], c_stderr = [], returncode = 0\<rparr> True)
          (demo_args Run [of_str ''delete'', of_str ''everything''] False)
          (demo_world NoFile [of_str ''yes'']))) = [] \<and>
   state_file (snd (main (demo_env (of_str ''rm -rf /home'') \<lparr>c_stdout = [], c_stderr = [], returncode = 0\<rparr> True)
          (demo_args Run [of_str ''delete'', of_str ''everything''] False)
          (demo_world NoFile [of_str ''yes'']))) =
     Json \<lparr>st_task = Some (of_str ''delete everything''), st_cmd = Some (of_str ''rm -rf /home''),
           st_last_error = Some [], st_exit_code = Some NoCode,
           st_timestamp = Some (of_str ''2025-01-01T00:00:00'')\<rparr> \<and>
   (of_str ''/bin/bash'', of_str ''rm -rf /home'') \<in>
     set (ran (snd (main (demo_env (of_str ''rm -rf /home'') \<lparr>c_stdout = [], c_stderr = [], returncode = 0\<rparr> True)
          (demo_args Run [of_str ''delete'', of_str ''everything''] False)
          (demo_world NoFile [of_str ''YES'']))))"
proof -
  let ?E = "demo_env (of_str ''rm -rf /home'') \<lparr>c_stdout = [], c_stderr = [], returncode = 0\<rparr> True"
  let ?A = "demo_args Run [of_str ''delete'', of_str ''everything''] False"
  have n: "normalize_one_line ascii_alnum (strip (of_str ''rm -rf /home'')) = of_str ''rm -rf /home''"
    by (simp add: eval_defs)
  have g: "generates ?E (args_model ?A) (SYSTEM_TEMPLATE (join_space (args_task ?A))) (of_str ''rm -rf /home'')"
    by (rule demo_generates [OF n]) (simp add: of_str_def)
  have "is_dangerous ascii_alnum (of_str ''rm -rf /home'')"
    by (simp add: eval_defs)
  then have d: "is_dangerous (uni_alnum ?E) (of_str ''rm -rf /home'')"
    by (simp add: demo_env_def)
  have m: "args_mode ?A = Run" and t: "args_task ?A \<noteq> []" by (simp_all add: demo_args_def)
  have 1: "strip (of_str ''yes'') \<noteq> of_str ''YES''" and 2: "strip (of_str ''YES'') = of_str ''YES''"
    by (simp_all add: strip_def of_str_def is_space_def)
  have j: "join_space (args_task ?A) = of_str ''delete everything''"
    by (simp add: demo_args_def of_str_def)
  from run_dangerous_confirmation [OF m t g d, of "demo_world NoFile [of_str ''yes'']" "of_str ''yes''" "[]"]
    run_dangerous_confirmation [OF m t g d, of "demo_world NoFile [of_str ''YES'']" "of_str ''YES''" "[]"]
    1 2
  show ?thesis
    by (simp add: j) (simp add: demo_world_def demo_env_def demo_args_def)
qed

theorem run_failure_refine_declined_witness:
  "fst (main (demo_env (of_str ''cat nofile'')
               \<lparr>c_stdout = [], c_stderr = of_str ''file not found'' @ [10], returncode = 1\<rparr> True)
          (demo_args Run [of_str ''show'', of_str ''nofile''] False)
          (demo_world NoFile [of_str ''y'', of_str ''n''])) = SysExit 1 \<and>
   exit_status (fst (main (demo_env (of_str ''cat nofile'')
               \<lparr>c_stdout = [], c_stderr = of_str ''file not found'' @ [10], returncode = 1\<rparr> True)
          (demo_args Run [of_str ''show'', of_str ''nofile''] False)
          (demo_world NoFile [of_str ''y'', of_str ''n'']))) = 1 \<and>
   exit_status (fst (main (demo_env (of_str ''cat nofile'')
               \<lparr>c_stdout = [], c_stderr = [], returncode = - 15\<rparr> True)
          (demo_args Run [of_str ''show'', of_str ''nofile''] False)
          (demo_world NoFile [of_str ''y'', of_str ''n'']))) = 241 \<and>
   state_file (snd (main (demo_env (of_str ''cat nofile'')
               \<lparr>c_stdout = [], c_stderr = of_str ''file not found'' @ [10], returncode = 1\<rparr> True)
          (demo_args Run [of_str ''show'', of_str ''nofile''] False)
          (demo_world NoFile [of_str ''y'', of_str ''n'']))) =
     Json \<lparr>st_task = Some (of_str ''show nofile''), st_cmd = Some (of_str ''cat nofile''),
           st_last_error = Some (of_str ''file not found''), st_exit_code = Some (Code 1),
           st_timestamp = Some (of_str ''2025-01-01T00:00:00'')\<rparr>"
proof -
  let ?R = "\<lparr>c_stdout = [], c_stderr = of_str ''file not found'' @ [10], returncode = 1\<rparr>"
  let ?E = "demo_env (of_str ''cat nofile'') ?R True"
  let ?A = "demo_args Run [of_str ''show'', of_str ''nofile''] False"
  let ?W = "demo_world NoFile [of_str ''y'', of_str ''n'']"
  have n: "normalize_one_line ascii_alnum (strip (of_str ''cat nofile'')) = of_str ''cat nofile''"
    by (simp add: eval_defs)
  have g: "generates ?E (args_model ?A) (SYSTEM_TEMPLATE (join_space (args_task ?A))) (of_str ''cat nofile'')"
    by (rule demo_generates [OF n]) (simp add: of_str_def)
  have "\<not> is_dangerous ascii_alnum (of_str ''cat nofile'')"
    by (simp add: eval_defs)
  then have a: "accepted ?E (of_str ''cat nofile'') (of_str ''y'')"
    by (simp add: accepted_def says_yes_def demo_env_def ascii_lower_def strip_def of_str_def is_space_def)
  have r: "returncode (run_shell ?E (args_shell ?A) (of_str ''cat nofile'')) \<noteq> 0"
    by (simp add: demo_env_def)
  have d: "\<not> says_yes ?E (of_str ''n'')"
    by (simp add: says_yes_def demo_env_def ascii_lower_def strip_def of_str_def is_space_def)
  have m: "args_mode ?A = Run" and t: "args_task ?A \<noteq> []" by (simp_all add: demo_args_def)
  have i: "stdin ?W = of_str ''y'' # of_str ''n'' # []" by (simp add: demo_world_def)
  have j: "join_space (args_task ?A) = of_str ''show nofile''"
    by (simp add: demo_args_def of_str_def)
  have s: "strip (of_str ''file not found'' @ [10]) = of_str ''file not found''"
    by (simp add: strip_def of_str_def is_space_def)
  let ?K = "\<lparr>c_stdout = [], c_stderr = [], returncode = - 15\<rparr>"
  let ?F = "demo_env (of_str ''cat nofile'') ?K True"
  have g': "generates ?F (args_model ?A) (SYSTEM_TEMPLATE (join_space (args_task ?A))) (of_str ''cat nofile'')"
    by (rule demo_generates [OF n]) (simp add: of_str_def)
  from \<open>\<not> is_dangerous ascii_alnum (of_str ''cat nofile'')\<close>
  have a': "accepted ?F (of_str ''cat nofile'') (of_str ''y'')"
    by (simp add: accepted_def says_yes_def demo_env_def ascii_lower_def strip_def of_str_def is_space_def)
  have r': "returncode (run_shell ?F (args_shell ?A) (of_str ''cat nofile'')) \<noteq> 0"
    by (simp add: demo_env_def)
  have d': "\<not> says_yes ?F (of_str ''n'')"
    by (simp add: says_yes_def demo_env_def ascii_lower_def strip_def of_str_def is_space_def)
  have k: "returncode (run_shell ?E (args_shell ?A) (of_str ''cat nofile'')) = 1"
    "returncode (run_shell ?F (args_shell ?A) (of_str ''cat nofile'')) = - 15"
    by (simp_all add: demo_env_def)
  from run_failure_refine_declined [OF m t g' i a' r' d']
  have "exit_status (fst (main ?F ?A ?W)) = 241"
    by (simp add: k)
  with run_failure_refine_declined [OF m t g i a r d]
  show ?thesis
    by (simp add: j k) (simp add: demo_world_def demo_env_def demo_args_def s)
qed

subsection \<open>A history file that cannot be written\<close>

lemma suggest_stops_at_history:
  assumes "\<not> args_no_history args" and "\<not> hist_ok env"
  shows "fst (and_then (suggest env model task w) (\<lambda>cmd w.
                and_then (log_history env args task' cmd w) (f cmd))) \<noteq> Return () \<and>
         state_file (snd (and_then (suggest env model task w) (\<lambda>cmd w.
                and_then (log_history env args task' cmd w) (f cmd)))) = state_file w \<and>
         stdout (snd (and_then (suggest env model task w) (\<lambda>cmd w.
                and_then (log_history env args task' cmd w) (f cmd)))) = stdout w"
  using assms
  by (cases "ollama env model (SYSTEM_TEMPLATE task)")
     (auto simp: history_fails suggest_def call_ollama_def Let_def warn_def)

lemma refine_stops_at_history:
  assumes "\<not> args_no_history args" and "\<not> hist_ok env"
  shows "fst (and_then (refine env model task prev problem w) (\<lambda>cmd w.
                and_then (log_history env args task' cmd w) (f cmd))) \<noteq> Return () \<and>
         state_file (snd (and_then (refine env model task prev problem w) (\<lambda>cmd w.
                and_then (log_history env args task' cmd w) (f cmd)))) = state_file w \<and>
         stdout (snd (and_then (refine env model task prev problem w) (\<lambda>cmd w.
                and_then (log_history env args task' cmd w) (f cmd)))) = stdout w"
  using assms
  by (cases "ollama env model
        (REFINE_TEMPLATE task prev (if strip problem = [] then of_str ''no details'' else strip problem))")
     (auto simp: history_fails refine_def call_ollama_def Let_def warn_def)

lemma suggest_mode_history_fails:
  assumes "\<not> args_no_history args" and "\<not> hist_ok env"
  shows "fst (suggest_mode env args w) \<noteq> Return () \<and>
         state_file (snd (suggest_mode env args w)) = state_file w \<and>
         stdout (snd (suggest_mode env args w)) = stdout w"
proof (cases "args_task args = []")
  case True
  then show ?thesis by (simp add: suggest_mode_def warn_def)
next
  case False
  then show ?thesis
    unfolding suggest_mode_def Let_def
    using suggest_stops_at_history [OF assms] by simp
qed

lemma refine_mode_history_fails:
  assumes "\<not> args_no_history args" and "\<not> hist_ok env"
  shows "fst (refine_mode env args state w) \<noteq> Return () \<and>
         state_file (snd (refine_mode env args state w)) = state_file w \<and>
         stdout (snd (refine_mode env args state w)) = stdout w"
proof (cases "args_use_last args")
  case True
  show ?thesis
  proof (cases "st_task state")
    case None
    with True show ?thesis by (simp add: refine_mode_def warn_def)
  next
    case t: (Some task)
    show ?thesis
    proof (cases "st_cmd state")
      case None
      with True t show ?thesis by (simp add: refine_mode_def warn_def)
    next
      case (Some prev)
      with True t show ?thesis
        using refine_stops_at_history [OF assms]
        by (simp add: refine_mode_def warn_def)
    qed
  qed
next
  case False
  show ?thesis
  proof (cases "args_task args = []")
    case True
    with False show ?thesis by (simp add: refine_mode_def warn_def)
  next
    case t: False
    have "state_file (warn WarnNoPreviousCommand w) = state_file w"
      "stdout (warn WarnNoPreviousCommand w) = stdout w"
      by (simp_all add: warn_def)
    with False t show ?thesis
      using refine_stops_at_history [OF assms, where w = w]
        refine_stops_at_history [OF assms, where w = "warn WarnNoPreviousCommand w"]
      by (simp add: refine_mode_def Let_def)
  qed
qed

lemma refine_mode_task_history_fails:
  assumes "\<not> args_no_history args" and "\<not> hist_ok env"
    and "\<not> args_use_last args" and "args_task args \<noteq> []"
    and g: "generates env (args_model args)
          (REFINE_TEMPLATE (join_space (args_task args))
             (case st_cmd state of None \<Rightarrow> [] | Some c \<Rightarrow> c)
             (if strip (args_why args) = [] then of_str ''no details'' else strip (args_why args))) cmd"
  shows "fst (refine_mode env args state w) = Uncaught OSError"
  using assms(1-4)
  by (simp add: refine_mode_def Let_def refine_generates [OF g] history_fails)

lemma refine_mode_use_last_history_fails:
  assumes "\<not> args_no_history args" and "\<not> hist_ok env"
    and "args_use_last args"
    and "st_task state = Some task" and "st_cmd state = Some prev"
    and "task \<noteq> []" and "prev \<noteq> []"
    and g: "generates env (args_model args)
          (REFINE_TEMPLATE task prev
             (if strip (if args_why args \<noteq> [] then args_why args
                        else case st_last_error state of None \<Rightarrow> [] | Some e \<Rightarrow> e) = []
              then of_str ''no details''
              else strip (if args_why args \<noteq> [] then args_why args
                          else case st_last_error state of None \<Rightarrow> [] | Some e \<Rightarrow> e))) cmd"
  shows "fst (refine_mode env args state w) = Uncaught OSError"
  using assms(1-7)
  by (simp add: refine_mode_def Let_def refine_generates [OF g] history_fails)

text \<open>
  C8 (as amended): a failure to append to the history file is fatal. When the history is
  not suppressed and the file cannot be appended to, no suggest or refine invocation ends
  with success, saves the state or prints the command; after a successful generation a
  suggest invocation and a refine invocation (with task text, or with \<^verbatim>\<open>--use-last\<close> and a
  stored task and command) end by the uncaught \<^verbatim>\<open>OSError\<close>; a run invocation whose
  command was run and exited with 0 ends by the uncaught \<^verbatim>\<open>OSError\<close> without saving the
  state.
\<close>

theorem history_failure_is_fatal:
  assumes "\<not> args_no_history args" and "\<not> hist_ok env"
  shows "(args_mode args = Suggest \<or> args_mode args = Refine \<longrightarrow>
            fst (main env args w) \<noteq> Return () \<and>
            state_file (snd (main env args w)) = state_file w \<and>
            stdout (snd (main env args w)) = stdout w) \<and>
         (args_mode args = Suggest \<and> args_task args \<noteq> [] \<and>
          generates env (args_model args) (SYSTEM_TEMPLATE (join_space (args_task args))) cmd \<longrightarrow>
            fst (main env args w) = Uncaught OSError) \<and>
         (args_mode args = Refine \<and> \<not> args_use_last args \<and> args_task args \<noteq> [] \<and>
          generates env (args_model args)
            (REFINE_TEMPLATE (join_space (args_task args))
               (case st_cmd (load_state w) of None \<Rightarrow> [] | Some c \<Rightarrow> c)
               (if strip (args_why args) = [] then of_str ''no details''
                else strip (args_why args))) cmd \<longrightarrow>
            fst (main env args w) = Uncaught OSError) \<and>
         (args_mode args = Refine \<and> args_use_last args \<and>
          st_task (load_state w) = Some task \<and> st_cmd (load_state w) = Some prev \<and>
          task \<noteq> [] \<and> prev \<noteq> [] \<and>
          generates env (args_model args)
            (REFINE_TEMPLATE task prev
               (if strip (if args_why args \<noteq> [] then args_why args
                          else case st_last_error (load_state w) of None \<Rightarrow> [] | Some e \<Rightarrow> e) = []
                then of_str ''no details''
                else strip (if args_why args \<noteq> [] then args_why args
                            else case st_last_error (load_state w) of None \<Rightarrow> [] | Some e \<Rightarrow> e))) cmd \<longrightarrow>
            fst (main env args w) = Uncaught OSError) \<and>
         (args_mode args = Run \<and> args_task args \<noteq> [] \<and>
          generates env (args_model args) (SYSTEM_TEMPLATE (join_space (args_task args))) cmd \<and>
          stdin w = line # rest \<and> accepted env cmd line \<and>
          returncode (run_shell env (args_shell args) cmd) = 0 \<longrightarrow>
            fst (main env args w) = Uncaught OSError \<and>
            state_file (snd (main env args w)) = state_file w \<and>
            (args_shell args, cmd) \<in> set (ran (snd (main env args w))))"
proof (intro conjI impI)
  assume "args_mode args = Suggest \<or> args_mode args = Refine"
  then have "fst (main env args w) \<noteq> Return () \<and>
      state_file (snd (main env args w)) = state_file w \<and>
      stdout (snd (main env args w)) = stdout w"
    using suggest_mode_history_fails [OF assms, of w]
      refine_mode_history_fails [OF assms, of "load_state w" w]
    by (auto simp: main_def)
  then show "fst (main env args w) \<noteq> Return ()"
    and "state_file (snd (main env args w)) = state_file w"
    and "stdout (snd (main env args w)) = stdout w"
    by simp_all
next
  assume "args_mode args = Suggest \<and> args_task args \<noteq> [] \<and>
    generates env (args_model args) (SYSTEM_TEMPLATE (join_space (args_task args))) cmd"
  then have s: "args_mode args = Suggest" "args_task args \<noteq> []"
    and g: "generates env (args_model args) (SYSTEM_TEMPLATE (join_space (args_task args))) cmd"
    by simp_all
  from s assms show "fst (main env args w) = Uncaught OSError"
    by (simp add: main_def suggest_mode_def Let_def suggest_generates [OF g] history_fails)
next
  assume h: "args_mode args = Refine \<and> \<not> args_use_last args \<and> args_task args \<noteq> [] \<and>
    generates env (args_model args)
      (REFINE_TEMPLATE (join_space (args_task args))
         (case st_cmd (load_state w) of None \<Rightarrow> [] | Some c \<Rightarrow> c)
         (if strip (args_why args) = [] then of_str ''no details''
          else strip (args_why args))) cmd"
  then have u: "\<not> args_use_last args" and t: "args_task args \<noteq> []"
    by blast+
  from h have "fst (refine_mode env args (load_state w) w) = Uncaught OSError"
    by (intro refine_mode_task_history_fails [OF assms u t]) blast
  with h show "fst (main env args w) = Uncaught OSError"
    by (simp add: main_def)
next
  assume h: "args_mode args = Refine \<and> args_use_last args \<and>
    st_task (load_state w) = Some task \<and> st_cmd (load_state w) = Some prev \<and>
    task \<noteq> [] \<and> prev \<noteq> [] \<and>
    generates env (args_model args)
      (REFINE_TEMPLATE task prev
         (if strip (if args_why args \<noteq> [] then args_why args
                    else case st_last_error (load_state w) of None \<Rightarrow> [] | Some e \<Rightarrow> e) = []
          then of_str ''no details''
          else strip (if args_why args \<noteq> [] then args_why args
                      else case st_last_error (load_state w) of None \<Rightarrow> [] | Some e \<Rightarrow> e))) cmd"
  then have u: "args_use_last args"
    and s: "st_task (load_state w) = Some task" "st_cmd (load_state w) = Some prev"
    and t: "task \<noteq> []" "prev \<noteq> []"
    by blast+
  from h have "fst (refine_mode env args (load_state w) w) = Uncaught OSError"
    by (intro refine_mode_use_last_history_fails [OF assms u s t]) blast
  with h show "fst (main env args w) = Uncaught OSError"
    by (simp add: main_def)
next
  let ?task = "join_space (args_task args)"
  let ?w = "emit (Suggested cmd) (w\<lparr>asked := asked w @ [(args_model args, SYSTEM_TEMPLATE ?task)]\<rparr>)"
  assume h: "args_mode args = Run \<and> args_task args \<noteq> [] \<and>
    generates env (args_model args) (SYSTEM_TEMPLATE (join_space (args_task args))) cmd \<and>
    stdin w = line # rest \<and> accepted env cmd line \<and>
    returncode (run_shell env (args_shell args) cmd) = 0"
  then have m: "main env args w = and_then (confirm env ?task cmd ?w) (\<lambda>_ w. execute env args ?task cmd w)"
    by (intro main_run) simp_all
  from h have i: "stdin ?w = line # rest" by (simp add: emit_def)
  from h have a: "accepted env cmd line" and r: "returncode (run_shell env (args_shell args) cmd) = 0"
    by simp_all
  note c = confirm_accepted [OF i a, of ?task]
  note e = execute_ok_history_fails [OF r assms, of ?task]
  show "fst (main env args w) = Uncaught OSError" unfolding m c by (simp add: e)
  show "state_file (snd (main env args w)) = state_file w" unfolding m c by (simp add: e emit_def)
  show "(args_shell args, cmd) \<in> set (ran (snd (main env args w)))" unfolding m c by (simp add: e)
qed

theorem history_failure_is_fatal_witness:
  "fst (main (demo_env (of_str ''ls -la'') \<lparr>c_stdout = of_str ''a.txt'' @ [10], c_stderr = [], returncode = 0\<rparr> False)
          (demo_args Run [of_str ''list'', of_str ''files''] False)
          (demo_world NoFile [of_str ''y''])) = Uncaught OSError \<and>
   state_file (snd (main (demo_env (of_str ''ls -la'') \<lparr>c_stdout = of_str ''a.txt'' @ [10], c_stderr = [], returncode = 0\<rparr> False)
          (demo_args Run [of_str ''list'', of_str ''files''] False)
          (demo_world NoFile [of_str ''y'']))) = NoFile \<and>
   fst (main (demo_env (of_str ''ls -la'') \<lparr>c_stdout = of_str ''a.txt'' @ [10], c_stderr = [], returncode = 0\<rparr> False)
          (demo_args Suggest [of_str ''list'', of_str ''files''] False)
          (demo_world NoFile [])) = Uncaught OSError \<and>
   fst (main (demo_env (of_str ''ls -la'') \<lparr>c_stdout = of_str ''a.txt'' @ [10], c_stderr = [], returncode = 0\<rparr> False)
          (demo_args Refine [of_str ''list'', of_str ''files''] False)
          (demo_world NoFile [])) = Uncaught OSError \<and>
   fst (main (demo_env (of_str ''ls -la'') \<lparr>c_stdout = of_str ''a.txt'' @ [10], c_stderr = [], returncode = 0\<rparr> False)
          (demo_args Refine [] True)
          (demo_world (Json demo_state) [])) = Uncaught OSError \<and>
   state_file (snd (main (demo_env (of_str ''ls -la'') \<lparr>c_stdout = of_str ''a.txt'' @ [10], c_stderr = [], returncode = 0\<rparr> False)
          (demo_args Refine [] True)
          (demo_world (Json demo_state) []))) = Json demo_state"
proof -
  let ?R = "\<lparr>c_stdout = of_str ''a.txt'' @ [10], c_stderr = [], returncode = 0\<rparr>"
  let ?E = "demo_env (of_str ''ls -la'') ?R False"
  let ?A = "demo_args Run [of_str ''list'', of_str ''files''] False"
  let ?B = "demo_args Refine [of_str ''list'', of_str ''files''] False"
  let ?C = "demo_args Refine [] True"
  let ?S = "demo_args Suggest [of_str ''list'', of_str ''files''] False"
  let ?W = "demo_world NoFile [of_str ''y'']"
  let ?V = "demo_world (Json demo_state) []"
  have n: "normalize_one_line ascii_alnum (strip (of_str ''ls -la'')) = of_str ''ls -la''"
    by (simp add: eval_defs)
  have g: "generates ?E (args_model ?A) (SYSTEM_TEMPLATE (join_space (args_task ?A))) (of_str ''ls -la'')"
    by (rule demo_generates [OF n]) (simp add: of_str_def)
  have "\<not> is_dangerous ascii_alnum (of_str ''ls -la'')"
    by (simp add: eval_defs)
  then have a: "accepted ?E (of_str ''ls -la'') (of_str ''y'')"
    by (simp add: accepted_def says_yes_def demo_env_def ascii_lower_def strip_def of_str_def is_space_def)
  have r: "returncode (run_shell ?E (args_shell ?A) (of_str ''ls -la'')) = 0"
    by (simp add: demo_env_def)
  have h: "\<not> args_no_history ?A" "\<not> args_no_history ?B" "\<not> hist_ok ?E"
    "\<not> args_no_history ?C" "\<not> args_no_history ?S"
    by (simp_all add: demo_args_def demo_env_def)
  have m: "args_mode ?A = Run" "args_mode ?B = Refine" and t: "args_task ?A \<noteq> []"
    by (simp_all add: demo_args_def)
  have i: "stdin ?W = of_str ''y'' # []" by (simp add: demo_world_def)
  from history_failure_is_fatal
    [OF h(1) h(3), where w = ?W and cmd = "of_str ''ls -la''" and line = "of_str ''y''" and rest = "[]"]
    m(1) t g i a r
  have 1: "fst (main ?E ?A ?W) = Uncaught OSError \<and> state_file (snd (main ?E ?A ?W)) = state_file ?W"
    by blast
  have gs: "generates ?E (args_model ?S) (SYSTEM_TEMPLATE (join_space (args_task ?S))) (of_str ''ls -la'')"
    by (rule demo_generates [OF n]) (simp add: of_str_def)
  have "args_mode ?S = Suggest \<and> args_task ?S \<noteq> []" by (simp add: demo_args_def)
  with history_failure_is_fatal [OF h(5) h(3), where w = "demo_world NoFile []" and cmd = "of_str ''ls -la''"] gs
  have 2: "fst (main ?E ?S (demo_world NoFile [])) = Uncaught OSError"
    by blast
  have gb: "generates ?E (args_model ?B)
      (REFINE_TEMPLATE (join_space (args_task ?B))
         (case st_cmd (load_state (demo_world NoFile [])) of None \<Rightarrow> [] | Some c \<Rightarrow> c)
         (if strip (args_why ?B) = [] then of_str ''no details'' else strip (args_why ?B)))
      (of_str ''ls -la'')"
    by (rule demo_generates [OF n]) (simp add: of_str_def)
  have "args_mode ?B = Refine \<and> \<not> args_use_last ?B \<and> args_task ?B \<noteq> []"
    by (simp add: demo_args_def)
  with history_failure_is_fatal [OF h(2) h(3), where w = "demo_world NoFile []" and cmd = "of_str ''ls -la''"] gb
  have 3: "fst (main ?E ?B (demo_world NoFile [])) = Uncaught OSError"
    by blast
  have gc: "generates ?E (args_model ?C)
      (REFINE_TEMPLATE (of_str ''list files'') (of_str ''ls'')
         (if strip (if args_why ?C \<noteq> [] then args_why ?C
                    else case st_last_error (load_state ?V) of None \<Rightarrow> [] | Some e \<Rightarrow> e) = []
          then of_str ''no details''
          else strip (if args_why ?C \<noteq> [] then args_why ?C
                      else case st_last_error (load_state ?V) of None \<Rightarrow> [] | Some e \<Rightarrow> e)))
      (of_str ''ls -la'')"
    by (rule demo_generates [OF n]) (simp add: of_str_def)
  have c: "args_mode ?C = Refine \<and> args_use_last ?C \<and>
      st_task (load_state ?V) = Some (of_str ''list files'') \<and>
      st_cmd (load_state ?V) = Some (of_str ''ls'') \<and>
      of_str ''list files'' \<noteq> [] \<and> of_str ''ls'' \<noteq> []"
    by (simp add: demo_args_def demo_world_def demo_state_def load_state_def of_str_def)
  from history_failure_is_fatal
    [OF h(4) h(3), where w = ?V and cmd = "of_str ''ls -la''"
       and task = "of_str ''list files''" and prev = "of_str ''ls''"] gc c
  have 4: "fst (main ?E ?C ?V) = Uncaught OSError \<and> state_file (snd (main ?E ?C ?V)) = state_file ?V"
    by blast
  from 1 2 3 4 show ?thesis by (simp add: demo_world_def)
qed

text \<open>
  C8 as stated fails: a suggest invocation whose generation succeeded ends by the
  exception, with no state file written and nothing printed.
\<close>

theorem history_failure_aborts_suggest:
  "fst (main (demo_env (of_str ''ls -la'') \<lparr>c_stdout = [], c_stderr = [], returncode = 0\<rparr> False)
          (demo_args Suggest [of_str ''list'', of_str ''files''] False)
          (demo_world NoFile [])) = Uncaught OSError \<and>
   state_file (snd (main (demo_env (of_str ''ls -la'') \<lparr>c_stdout = [], c_stderr = [], returncode = 0\<rparr> False)
          (demo_args Suggest [of_str ''list'', of_str ''files''] False)
          (demo_world NoFile []))) = NoFile \<and>
   stdout (snd (main (demo_env (of_str ''ls -la'') \<lparr>c_stdout = [], c_stderr = [], returncode = 0\<rparr> False)
          (demo_args Suggest [of_str ''list'', of_str ''files''] False)
          (demo_world NoFile []))) = []"
proof -
  have n: "normalize_one_line ascii_alnum (strip (of_str ''ls -la'')) = of_str ''ls -la''"
    by (simp add: eval_defs)
  have e: "of_str ''ls -la'' \<noteq> []" "10 \<notin> set (of_str ''ls -la'')" by (simp_all add: of_str_def)
  show ?thesis
    by (simp add: main_def suggest_mode_def suggest_def call_ollama_def log_history_def
        save_history_def Let_def demo_env_def demo_args_def demo_world_def n e)
qed

end
